theory Spec2Isabelle
  imports Main "HOL-Library.Word" "HOL-Library.Sublist"
begin

unbundle bit_operations_syntax

section \<open>JavaScript strings\<close>

text \<open>
  A JavaScript string is a sequence of 16-bit code units; \<open>charCodeAt\<close>, the regular
  expressions of \<open>src/cli.ts\<close> (none has the \<open>u\<close> flag) and \<open>length\<close> all work on
  code units. \<open>js\<close> reads an ASCII literal as such a string.
\<close>

type_synonym jschar = "16 word"
type_synonym jsstring = "jschar list"

definition js :: "string \<Rightarrow> jsstring" where
  "js s = map of_char s"

text \<open>The character classes \<open>\d\<close>, \<open>[A-Z]\<close>, \<open>[a-z]\<close>, \<open>[a-zA-Z0-9]\<close>, \<open>\w\<close> and \<open>\s\<close>
  (white space and line terminators of ECMAScript).\<close>

definition is_digit :: "jschar \<Rightarrow> bool" where
  "is_digit c = (48 \<le> uint c \<and> uint c \<le> 57)"

definition is_upper :: "jschar \<Rightarrow> bool" where
  "is_upper c = (65 \<le> uint c \<and> uint c \<le> 90)"

definition is_lower :: "jschar \<Rightarrow> bool" where
  "is_lower c = (97 \<le> uint c \<and> uint c \<le> 122)"

definition is_alnum :: "jschar \<Rightarrow> bool" where
  "is_alnum c = (is_lower c \<or> is_upper c \<or> is_digit c)"

definition is_word :: "jschar \<Rightarrow> bool" where
  "is_word c = (is_alnum c \<or> uint c = 95)"

definition is_space :: "jschar \<Rightarrow> bool" where
  "is_space c = (let n = uint c in
     (9 \<le> n \<and> n \<le> 13) \<or> n = 32 \<or> n = 160 \<or> n = 5760 \<or> (8192 \<le> n \<and> n \<le> 8202)
     \<or> n = 8232 \<or> n = 8233 \<or> n = 8239 \<or> n = 8287 \<or> n = 12288 \<or> n = 65279)"

text \<open>ASCII case mapping: what \<open>toUpperCase\<close> and \<open>toLowerCase\<close> do to a string of ASCII
  letters and digits, and what the \<open>i\<close> flag compares ASCII letters by.\<close>

definition ascii_upper :: "jschar \<Rightarrow> jschar" where
  "ascii_upper c = (if is_lower c then c - 32 else c)"

definition ascii_lower :: "jschar \<Rightarrow> jschar" where
  "ascii_lower c = (if is_upper c then c + 32 else c)"

fun strip_prefix :: "jsstring \<Rightarrow> jsstring \<Rightarrow> jsstring option" where
  "strip_prefix [] s = Some s"
| "strip_prefix (p # ps) [] = None"
| "strip_prefix (p # ps) (c # cs) = (if p = c then strip_prefix ps cs else None)"

definition startsWith :: "jsstring \<Rightarrow> jsstring \<Rightarrow> bool" where
  "startsWith s p = (strip_prefix p s \<noteq> None)"

text \<open>\<open>parts.join(sep)\<close>\<close>

fun join :: "jsstring \<Rightarrow> jsstring list \<Rightarrow> jsstring" where
  "join sep [] = []"
| "join sep [x] = x"
| "join sep (x # y # ys) = x @ sep @ join sep (y # ys)"

text \<open>\<open>s.trim()\<close>\<close>

definition trim :: "jsstring \<Rightarrow> jsstring" where
  "trim s = rev (dropWhile is_space (rev (dropWhile is_space s)))"

text \<open>A number rendered in decimal, as a template literal renders a small non-negative
  integer (\<open>counter\<close>, \<open>typeRegistry.size\<close>).\<close>

function decimal :: "nat \<Rightarrow> jsstring" where
  "decimal n = (if n < 10 then [of_nat (48 + n)] else decimal (n div 10) @ [of_nat (48 + n mod 10)])"
  by pat_completeness auto
termination
  by (relation "measure id") auto

declare decimal.simps [simp del]

section \<open>Maps in insertion order\<close>

text \<open>
  A JavaScript \<open>Map\<close> iterates in insertion order, and \<open>set\<close> on a key it already holds
  replaces the value where the key stands. It is modelled as an association list with
  distinct keys.
\<close>

fun Map_get :: "('k \<times> 'v) list \<Rightarrow> 'k \<Rightarrow> 'v option" where
  "Map_get [] k = None"
| "Map_get ((k', v) # m) k = (if k' = k then Some v else Map_get m k)"

definition Map_has :: "('k \<times> 'v) list \<Rightarrow> 'k \<Rightarrow> bool" where
  "Map_has m k = (Map_get m k \<noteq> None)"

fun Map_set :: "('k \<times> 'v) list \<Rightarrow> 'k \<Rightarrow> 'v \<Rightarrow> ('k \<times> 'v) list" where
  "Map_set [] k v = [(k, v)]"
| "Map_set ((k', v') # m) k v = (if k' = k then (k, v) # m else (k', v') # Map_set m k v)"

definition Map_values :: "('k \<times> 'v) list \<Rightarrow> 'v list" where
  "Map_values m = map snd m"

definition Map_size :: "('k \<times> 'v) list \<Rightarrow> nat" where
  "Map_size m = length m"

section \<open>hashType\<close>

text \<open>\<open>content.replace(/\s+/g, " ")\<close>: every maximal run of white space becomes one space.\<close>

function collapse_ws :: "jsstring \<Rightarrow> jsstring" where
  "collapse_ws [] = []"
| "collapse_ws (c # cs) =
     (if is_space c then 32 # collapse_ws (dropWhile is_space cs) else c # collapse_ws cs)"
  by pat_completeness auto
termination
  by (relation "measure length") (auto simp: length_dropWhile_le less_Suc_eq_le)

text \<open>
  One match of \<open>/interface\s+\w+\s+/\<close> at the start of \<open>s\<close>, giving the text after the
  match. The quantifiers are greedy, and since no character is in both \<open>\s\<close> and \<open>\w\<close>
  a shorter run never lets the rest of the pattern match where the longest run does not.
\<close>

definition match_interface :: "jsstring \<Rightarrow> jsstring option" where
  "match_interface s =
     (case strip_prefix (js ''interface'') s of
        None \<Rightarrow> None
      | Some r1 \<Rightarrow>
          (let r2 = dropWhile is_space r1;
               r3 = dropWhile is_word r2;
               r4 = dropWhile is_space r3
           in if length r2 < length r1 \<and> length r3 < length r2 \<and> length r4 < length r3
              then Some r4 else None))"

lemma strip_prefix_length: "strip_prefix p s = Some r \<Longrightarrow> length s = length p + length r"
  by (induction p s rule: strip_prefix.induct) (auto split: if_splits)

lemma match_interface_shorter: "match_interface s = Some r \<Longrightarrow> length r < length s"
  by (auto simp: match_interface_def Let_def split: option.splits if_splits
      dest!: strip_prefix_length)

text \<open>\<open>.replace(/interface\s+\w+\s+/g, "interface ")\<close>: the matches are replaced from left
  to right, the search going on after each match.\<close>

function replace_interface :: "jsstring \<Rightarrow> jsstring" where
  "replace_interface [] = []"
| "replace_interface (c # cs) =
     (case match_interface (c # cs) of
        Some r \<Rightarrow> js ''interface '' @ replace_interface r
      | None \<Rightarrow> c # replace_interface cs)"
  by pat_completeness auto
termination
  by (relation "measure length") (auto dest: match_interface_shorter)

text \<open>
  One round of the loop: \<open>hash = (hash << 5) - hash + char; hash = hash & hash\<close>. The
  bitwise operators work on 32-bit integers, so the accumulator is a 32-bit word.
\<close>

definition hash_step :: "32 word \<Rightarrow> jschar \<Rightarrow> 32 word" where
  "hash_step hash char = (let h = push_bit 5 hash - hash + ucast char in h AND h)"

text \<open>\<open>hash.toString(36)\<close> of the signed value of the accumulator.\<close>

definition digit36 :: "int \<Rightarrow> jschar" where
  "digit36 d = (if d < 10 then of_int (48 + d) else of_int (87 + d))"

function digits36 :: "int \<Rightarrow> jsstring" where
  "digits36 n = (if n < 36 then [digit36 n] else digits36 (n div 36) @ [digit36 (n mod 36)])"
  by pat_completeness auto
termination
  by (relation "measure nat") auto

declare digits36.simps [simp del]

definition toString36 :: "32 word \<Rightarrow> jsstring" where
  "toString36 h = (if sint h < 0 then 45 # digits36 (- sint h) else digits36 (sint h))"

definition hashType :: "jsstring \<Rightarrow> jsstring" where
  "hashType content =
     (let normalizedContent = trim (replace_interface (collapse_ws content))
      in toString36 (foldl hash_step 0 normalizedContent))"

section \<open>Names\<close>

text \<open>
  \<open>name.split(/[^a-zA-Z0-9]+/)\<close>: the pieces between the maximal runs of other
  characters; a run at the start or the end of the text leaves an empty piece there, and
  the empty text splits into one empty piece.
\<close>

function split_non_alnum :: "jsstring \<Rightarrow> jsstring list" where
  "split_non_alnum s =
     (case dropWhile is_alnum s of
        [] \<Rightarrow> [s]
      | c # r \<Rightarrow> takeWhile is_alnum s # split_non_alnum (dropWhile (\<lambda>x. \<not> is_alnum x) r))"
  by pat_completeness auto
termination
proof (relation "measure length", goal_cases)
  case 1
  show ?case by simp
next
  case (2 s c r)
  have "length (dropWhile (\<lambda>x. \<not> is_alnum x) r) \<le> length r"
    by (rule length_dropWhile_le)
  moreover have "length (dropWhile is_alnum s) \<le> length s"
    by (rule length_dropWhile_le)
  ultimately show ?case using 2 by simp
qed

declare split_non_alnum.simps [simp del]

text \<open>\<open>part.charAt(0).toUpperCase() + part.slice(1).toLowerCase()\<close>, on a piece of ASCII
  letters and digits (the pieces of \<open>split_non_alnum\<close> hold nothing else).\<close>

fun capitalize :: "jsstring \<Rightarrow> jsstring" where
  "capitalize [] = []"
| "capitalize (c # cs) = ascii_upper c # map ascii_lower cs"

definition normalizeTypeName :: "jsstring \<Rightarrow> jsstring" where
  "normalizeTypeName name = join [] (map capitalize (split_non_alnum name))"

text \<open>\<open>s.split(sep)\<close> for a one-character separator (also used on byte sequences).\<close>

function split_char :: "'a \<Rightarrow> 'a list \<Rightarrow> 'a list list" where
  "split_char sep s =
     (case dropWhile (\<lambda>x. x \<noteq> sep) s of
        [] \<Rightarrow> [s]
      | c # r \<Rightarrow> takeWhile (\<lambda>x. x \<noteq> sep) s # split_char sep r)"
  by pat_completeness auto
termination
proof (relation "measure (\<lambda>(sep, s). length s)", goal_cases)
  case 1
  show ?case by simp
next
  case (2 sep s c r)
  have "length (dropWhile (\<lambda>x. x \<noteq> sep) s) \<le> length s"
    by (rule length_dropWhile_le)
  then show ?case using 2 by simp
qed

declare split_char.simps [simp del]

section \<open>normalizePropertyName\<close>

text \<open>\<open>name.replace(/^(ep\.|epn\.|_)/, "")\<close>: the first alternative that matches at the
  start of the name is removed, once.\<close>

definition strip_noise_prefix :: "jsstring \<Rightarrow> jsstring" where
  "strip_noise_prefix name =
     (case strip_prefix (js ''ep.'') name of
        Some r \<Rightarrow> r
      | None \<Rightarrow>
          (case strip_prefix (js ''epn.'') name of
             Some r \<Rightarrow> r
           | None \<Rightarrow> (case strip_prefix (js ''_'') name of Some r \<Rightarrow> r | None \<Rightarrow> name)))"

text \<open>\<open>.replace(/[^a-zA-Z0-9_]/g, "_")\<close>\<close>

definition underscore_non_word :: "jsstring \<Rightarrow> jsstring" where
  "underscore_non_word s = map (\<lambda>c. if is_word c then c else 95) s"

text \<open>The template literal \<open>`${normalizedName}_${counter}`\<close>.\<close>

definition candidate :: "jsstring \<Rightarrow> nat \<Rightarrow> jsstring" where
  "candidate normalizedName counter = normalizedName @ 95 # decimal counter"

definition undecimal :: "jsstring \<Rightarrow> nat" where
  "undecimal s = foldl (\<lambda>a c. 10 * a + (unat c - 48)) 0 s"

lemma undecimal_decimal: "undecimal (decimal n) = n"
proof (induction n rule: decimal.induct)
  case (1 n)
  show ?case
  proof (cases "n < 10")
    case True
    then have "unat (of_nat (48 + n) :: jschar) = 48 + n"
      by (simp add: unat_word_ariths unat_of_nat)
    with True show ?thesis
      by (subst decimal.simps) (simp add: undecimal_def)
  next
    case False
    have "n mod 10 < 10" by simp
    then have "unat (of_nat (48 + n mod 10) :: jschar) = 48 + n mod 10"
      by (simp add: unat_word_ariths unat_of_nat)
    with False 1 show ?thesis
      by (subst decimal.simps) (simp add: undecimal_def)
  qed
qed

lemma decimal_inj: "decimal m = decimal n \<Longrightarrow> m = n"
  by (metis undecimal_decimal)

lemma inj_candidate: "inj (candidate b)"
  by (auto simp: inj_def candidate_def dest: decimal_inj)

lemma finite_taken: "finite {k. candidate b k \<in> set vals}"
proof -
  have "{k. candidate b k \<in> set vals} = candidate b -` set vals" by auto
  then show ?thesis by (simp add: finite_vimageI inj_candidate)
qed

text \<open>
  The loop \<open>while (Array.from(propertyRegistry.values()).includes(uniqueName))\<close>: \<open>vals\<close>
  are the registry's values, which the loop does not change. It ends because the
  candidates are pairwise different and the registry is finite.
\<close>

function unique_loop :: "jsstring list \<Rightarrow> jsstring \<Rightarrow> jsstring \<Rightarrow> nat \<Rightarrow> jsstring" where
  "unique_loop vals normalizedName uniqueName counter =
     (if uniqueName \<in> set vals
      then unique_loop vals normalizedName (candidate normalizedName counter) (counter + 1)
      else uniqueName)"
  by pat_completeness auto
termination
proof (relation "measure (\<lambda>(vals, b, u, c).
         card {k. c \<le> k \<and> candidate b k \<in> set vals} + (if u \<in> set vals then 1 else 0))",
       goal_cases)
  case 1
  show ?case by simp
next
  case (2 vals b u c)
  let ?A = "{k. c \<le> k \<and> candidate b k \<in> set vals}"
  let ?B = "{k. c + 1 \<le> k \<and> candidate b k \<in> set vals}"
  have fin: "finite ?A"
    by (rule finite_subset [OF _ finite_taken [of b vals]]) auto
  have "card ?B + (if candidate b c \<in> set vals then 1 else 0) = card ?A"
  proof (cases "candidate b c \<in> set vals")
    case True
    then have "?A = insert c ?B" by (auto simp: le_Suc_eq)
    moreover have "c \<notin> ?B" by simp
    moreover have "finite ?B"
      by (rule finite_subset [OF _ fin]) auto
    ultimately show ?thesis using True by simp
  next
    case False
    then have "?A = ?B"
      by (auto simp: Suc_le_eq) (metis le_neq_implies_less)
    with False show ?thesis by simp
  qed
  with 2 show ?case by simp
qed

declare unique_loop.simps [simp del]

text \<open>The module-level \<open>propertyRegistry\<close>, a \<open>Map<string, string>\<close> from raw names to
  the identifiers given to them.\<close>

type_synonym registry = "(jsstring \<times> jsstring) list"

definition normalizePropertyName :: "jsstring \<Rightarrow> registry \<Rightarrow> jsstring \<times> registry" where
  "normalizePropertyName name propertyRegistry =
     (let normalizedName = underscore_non_word (strip_noise_prefix name)
      in case Map_get propertyRegistry name of
           Some known \<Rightarrow> (known, propertyRegistry)
         | None \<Rightarrow>
             (let uniqueName =
                    unique_loop (Map_values propertyRegistry) normalizedName normalizedName 1
              in (uniqueName, Map_set propertyRegistry name uniqueName)))"

text \<open>The calls of one run, in order: each call sees the registry the calls before it
  left.\<close>

fun normalize_calls :: "jsstring list \<Rightarrow> registry \<Rightarrow> jsstring list \<times> registry" where
  "normalize_calls [] reg = ([], reg)"
| "normalize_calls (name # names) reg =
     (case normalizePropertyName name reg of
        (ident, reg') \<Rightarrow>
          (case normalize_calls names reg' of (idents, reg'') \<Rightarrow> (ident # idents, reg'')))"

section \<open>URLSearchParams\<close>

text \<open>
  \<open>new URLSearchParams(text)\<close> is the platform's, not this repository's. It is modelled
  after the URL Standard: the text is read as scalar values (a surrogate that is not part
  of a pair becomes U+FFFD), a leading \<open>?\<close> is dropped, the text is encoded as UTF-8, and
  the \<open>application/x-www-form-urlencoded\<close> parser splits the bytes at \<open>&\<close>, each
  non-empty piece at its first \<open>=\<close>, turns \<open>+\<close> into a space, decodes the percent
  escapes and decodes the bytes as UTF-8, with U+FFFD for what is not UTF-8.
\<close>

type_synonym byte = "8 word"
type_synonym codepoint = "32 word"

definition is_high_surrogate :: "jschar \<Rightarrow> bool" where
  "is_high_surrogate c = (0xD800 \<le> uint c \<and> uint c \<le> 0xDBFF)"

definition is_low_surrogate :: "jschar \<Rightarrow> bool" where
  "is_low_surrogate c = (0xDC00 \<le> uint c \<and> uint c \<le> 0xDFFF)"

definition lone_unit :: "jschar \<Rightarrow> codepoint" where
  "lone_unit c = (if is_high_surrogate c \<or> is_low_surrogate c then 0xFFFD else ucast c)"

fun scalar_values :: "jsstring \<Rightarrow> codepoint list" where
  "scalar_values [] = []"
| "scalar_values [c] = [lone_unit c]"
| "scalar_values (c # d # cs) =
     (if is_high_surrogate c \<and> is_low_surrogate d
      then (0x10000 + push_bit 10 (ucast c AND 0x3FF) + (ucast d AND 0x3FF)) # scalar_values cs
      else lone_unit c # scalar_values (d # cs))"

definition utf8_encode :: "codepoint \<Rightarrow> byte list" where
  "utf8_encode cp =
     (if uint cp < 0x80 then [ucast cp]
      else if uint cp < 0x800 then
        [0xC0 OR ucast (drop_bit 6 cp), 0x80 OR (ucast cp AND 0x3F)]
      else if uint cp < 0x10000 then
        [0xE0 OR ucast (drop_bit 12 cp), 0x80 OR (ucast (drop_bit 6 cp) AND 0x3F),
         0x80 OR (ucast cp AND 0x3F)]
      else
        [0xF0 OR ucast (drop_bit 18 cp), 0x80 OR (ucast (drop_bit 12 cp) AND 0x3F),
         0x80 OR (ucast (drop_bit 6 cp) AND 0x3F), 0x80 OR (ucast cp AND 0x3F)])"

definition is_hex :: "byte \<Rightarrow> bool" where
  "is_hex b = ((0x30 \<le> uint b \<and> uint b \<le> 0x39) \<or> (0x41 \<le> uint b \<and> uint b \<le> 0x46)
               \<or> (0x61 \<le> uint b \<and> uint b \<le> 0x66))"

definition hex_val :: "byte \<Rightarrow> byte" where
  "hex_val b = (if uint b \<le> 0x39 then b - 0x30 else if uint b \<le> 0x46 then b - 0x37 else b - 0x57)"

fun percent_decode :: "byte list \<Rightarrow> byte list" where
  "percent_decode [] = []"
| "percent_decode (b # bs) =
     (if b = 0x25 then
        (case bs of
           h1 # h2 # r \<Rightarrow>
             (if is_hex h1 \<and> is_hex h2 then (16 * hex_val h1 + hex_val h2) # percent_decode r
              else b # percent_decode bs)
         | _ \<Rightarrow> b # percent_decode bs)
      else b # percent_decode bs)"

text \<open>The UTF-8 decoder of the Encoding Standard, with U+FFFD for each error. Its state is
  the code point so far, the bytes seen and needed, and the bounds of the next byte.\<close>

record utf8_state =
  code_point :: codepoint
  bytes_seen :: nat
  bytes_needed :: nat
  lower_boundary :: byte
  upper_boundary :: byte

definition utf8_start :: utf8_state where
  "utf8_start = \<lparr>code_point = 0, bytes_seen = 0, bytes_needed = 0,
                  lower_boundary = 0x80, upper_boundary = 0xBF\<rparr>"

definition utf8_lead :: "byte \<Rightarrow> codepoint list \<times> utf8_state" where
  "utf8_lead b =
     (if uint b \<le> 0x7F then ([ucast b], utf8_start)
      else if 0xC2 \<le> uint b \<and> uint b \<le> 0xDF then
        ([], utf8_start\<lparr>bytes_needed := 1, code_point := ucast b AND 0x1F\<rparr>)
      else if 0xE0 \<le> uint b \<and> uint b \<le> 0xEF then
        ([], utf8_start\<lparr>bytes_needed := 2, code_point := ucast b AND 0xF,
                         lower_boundary := (if b = 0xE0 then 0xA0 else 0x80),
                         upper_boundary := (if b = 0xED then 0x9F else 0xBF)\<rparr>)
      else if 0xF0 \<le> uint b \<and> uint b \<le> 0xF4 then
        ([], utf8_start\<lparr>bytes_needed := 3, code_point := ucast b AND 0x7,
                         lower_boundary := (if b = 0xF0 then 0x90 else 0x80),
                         upper_boundary := (if b = 0xF4 then 0x8F else 0xBF)\<rparr>)
      else ([0xFFFD], utf8_start))"

definition utf8_byte :: "utf8_state \<Rightarrow> byte \<Rightarrow> codepoint list \<times> utf8_state" where
  "utf8_byte st b =
     (if bytes_needed st = 0 then utf8_lead b
      else if uint b < uint (lower_boundary st) \<or> uint (upper_boundary st) < uint b then
        (case utf8_lead b of (out, st') \<Rightarrow> (0xFFFD # out, st'))
      else
        (let cp = push_bit 6 (code_point st) OR (ucast b AND 0x3F)
         in if bytes_seen st + 1 = bytes_needed st then ([cp], utf8_start)
            else ([], st\<lparr>code_point := cp, bytes_seen := bytes_seen st + 1,
                          lower_boundary := 0x80, upper_boundary := 0xBF\<rparr>)))"

fun utf8_decode_from :: "utf8_state \<Rightarrow> byte list \<Rightarrow> codepoint list" where
  "utf8_decode_from st [] = (if bytes_needed st = 0 then [] else [0xFFFD])"
| "utf8_decode_from st (b # bs) =
     (case utf8_byte st b of (out, st') \<Rightarrow> out @ utf8_decode_from st' bs)"

definition utf16_encode :: "codepoint \<Rightarrow> jsstring" where
  "utf16_encode cp =
     (if uint cp < 0x10000 then [ucast cp]
      else [0xD800 + ucast (drop_bit 10 (cp - 0x10000)),
            0xDC00 + (ucast (cp - 0x10000) AND 0x3FF)])"

definition utf8_decode :: "byte list \<Rightarrow> jsstring" where
  "utf8_decode bs = concat (map utf16_encode (utf8_decode_from utf8_start bs))"

definition form_decode :: "byte list \<Rightarrow> jsstring" where
  "form_decode bs = utf8_decode (percent_decode (map (\<lambda>b. if b = 0x2B then 0x20 else b) bs))"

definition form_pair :: "byte list \<Rightarrow> jsstring \<times> jsstring" where
  "form_pair bs =
     (case dropWhile (\<lambda>b. b \<noteq> 0x3D) bs of
        [] \<Rightarrow> (form_decode bs, [])
      | eq # v \<Rightarrow> (form_decode (takeWhile (\<lambda>b. b \<noteq> 0x3D) bs), form_decode v))"

definition urlencoded_parse :: "byte list \<Rightarrow> (jsstring \<times> jsstring) list" where
  "urlencoded_parse input = map form_pair (filter (\<lambda>bs. bs \<noteq> []) (split_char 0x26 input))"

definition URLSearchParams :: "jsstring \<Rightarrow> (jsstring \<times> jsstring) list" where
  "URLSearchParams init =
     (let text = (case init of c # cs \<Rightarrow> if c = 0x3F then cs else init | [] \<Rightarrow> init)
      in urlencoded_parse (concat (map utf8_encode (scalar_values text))))"

section \<open>generateTypeFromFormData\<close>

text \<open>\<open>/^-?\d+$/.test(value)\<close>\<close>

definition test_integer :: "jsstring \<Rightarrow> bool" where
  "test_integer v =
     (let digits = (case v of c # cs \<Rightarrow> if c = 45 then cs else v | [] \<Rightarrow> v)
      in digits \<noteq> [] \<and> list_all is_digit digits)"

text \<open>
  \<open>/^true|false$/i.test(value)\<close>. The alternation binds weaker than the anchors: the
  pattern is \<open>^true\<close> or \<open>false$\<close>, so it matches a value that starts with \<open>true\<close> or that
  ends with \<open>false\<close>, whatever the case of the letters.
\<close>

definition endsWith :: "jsstring \<Rightarrow> jsstring \<Rightarrow> bool" where
  "endsWith s p = startsWith (rev s) (rev p)"

definition test_true_or_false :: "jsstring \<Rightarrow> bool" where
  "test_true_or_false v =
     (startsWith (map ascii_upper v) (js ''TRUE'') \<or> endsWith (map ascii_upper v) (js ''FALSE''))"

definition field_type :: "jsstring \<Rightarrow> jsstring" where
  "field_type v =
     (if test_integer v then js ''number''
      else if test_true_or_false v then js ''boolean''
      else js ''string'')"

text \<open>The loop over \<open>params.entries()\<close>: \<open>properties\<close> is the \<open>Map\<close> of the fields so far.\<close>

fun form_fields ::
  "(jsstring \<times> jsstring) list \<Rightarrow> (jsstring \<times> jsstring) list \<Rightarrow> registry
     \<Rightarrow> (jsstring \<times> jsstring) list \<times> registry" where
  "form_fields [] properties reg = (properties, reg)"
| "form_fields ((key, v) # params) properties reg =
     (case normalizePropertyName key reg of
        (propName, reg') \<Rightarrow> form_fields params (Map_set properties propName (field_type v)) reg')"

definition interface_text :: "jsstring \<Rightarrow> (jsstring \<times> jsstring) list \<Rightarrow> jsstring" where
  "interface_text name properties =
     js ''interface '' @ name @ js '' {\<newline>''
       @ join (js ''\<newline>'') (map (\<lambda>(p, t). js ''  '' @ p @ js '': '' @ t @ js '';'') properties)
       @ js ''\<newline>}''"

section \<open>Errors, warnings and the state of a run\<close>

text \<open>
  What the code throws is a value: every function that can throw returns \<open>Inl\<close> of the
  error or \<open>Inr\<close> of its result, together with the state it left, and a \<open>try\<close>/\<open>catch\<close>
  is a case distinction on that result. \<open>console.warn\<close> appends to the warnings of the
  state.
\<close>

datatype js_error = SyntaxError | TypeError | Error string

datatype warning =
    FormDataFailed jsstring
  | JsonAndFormFailed jsstring
  | FallbackToAny jsstring
  | ResponseParseFailed jsstring

record TypeEntry =
  entry_name :: jsstring
  entry_definition :: jsstring
  entry_hash :: jsstring

text \<open>The module-level \<open>propertyRegistry\<close>, and \<open>typeRegistry\<close> and \<open>output\<close> of
  \<open>generateFromHar\<close>.\<close>

record run_state =
  propertyRegistry :: registry
  warnings :: "warning list"
  typeRegistry :: "(jsstring \<times> TypeEntry) list"
  "output" :: jsstring

definition warn :: "warning \<Rightarrow> run_state \<Rightarrow> run_state" where
  "warn w st = st\<lparr>warnings := warnings st @ [w]\<rparr>"

text \<open>The body of the \<open>try\<close> of \<open>generateTypeFromFormData\<close>.\<close>

definition form_data_try ::
  "jsstring \<Rightarrow> jsstring \<Rightarrow> run_state \<Rightarrow> (js_error + jsstring) \<times> run_state" where
  "form_data_try name formData st =
     (let params = URLSearchParams formData
      in case form_fields params [] (propertyRegistry st) of
           (properties, reg') \<Rightarrow>
             (Inr (interface_text name properties), st\<lparr>propertyRegistry := reg'\<rparr>))"

definition generateTypeFromFormData ::
  "jsstring \<Rightarrow> jsstring \<Rightarrow> run_state \<Rightarrow> (js_error + jsstring) \<times> run_state" where
  "generateTypeFromFormData name formData st =
     (case form_data_try name formData st of
        (Inr text, st') \<Rightarrow> (Inr text, st')
      | (Inl error, st') \<Rightarrow>
          (Inr (js ''type '' @ name @ js '' = Record<string, string>;''),
           warn (FormDataFailed name) st'))"

section \<open>JSON.parse\<close>

text \<open>
  \<open>JSON.parse\<close> is the platform's. It is modelled after the JSON grammar of ECMA-404,
  which ECMAScript prescribes: a lexer, and a parser that keeps the open arrays and
  objects on a stack. A text that is not JSON is a \<open>SyntaxError\<close>. A number is kept as
  it is written, since the code never computes with one; an object is kept as its
  members in the order of the text.
\<close>

datatype json =
    JNull
  | JBool bool
  | JNumber jsstring
  | JString jsstring
  | JArray "json list"
  | JObject "(jsstring \<times> json) list"

datatype token =
    TLBrace | TRBrace | TLBracket | TRBracket | TColon | TComma
  | TString jsstring | TNumber jsstring | TTrue | TFalse | TNull

definition is_hex_unit :: "jschar \<Rightarrow> bool" where
  "is_hex_unit c = (is_digit c \<or> (65 \<le> uint c \<and> uint c \<le> 70) \<or> (97 \<le> uint c \<and> uint c \<le> 102))"

definition hex_unit_val :: "jschar \<Rightarrow> jschar" where
  "hex_unit_val c = (if is_digit c then c - 48 else if uint c \<le> 70 then c - 55 else c - 87)"

definition unescape :: "jschar \<Rightarrow> jschar option" where
  "unescape e =
     (if e = 34 then Some 34 else if e = 92 then Some 92 else if e = 47 then Some 47
      else if e = 98 then Some 8 else if e = 102 then Some 12 else if e = 110 then Some 10
      else if e = 114 then Some 13 else if e = 116 then Some 9 else None)"

text \<open>The characters of a string after its opening quote: the text of the string and
  what follows its closing quote.\<close>

fun lex_string :: "jsstring \<Rightarrow> (jsstring \<times> jsstring) option" where
  "lex_string [] = None"
| "lex_string (c # cs) =
     (if c = 34 then Some ([], cs)
      else if c = 92 then
        (case cs of
           [] \<Rightarrow> None
         | e # r \<Rightarrow>
             (if e = 117 then
                (case r of
                   h1 # h2 # h3 # h4 # r' \<Rightarrow>
                     (if is_hex_unit h1 \<and> is_hex_unit h2 \<and> is_hex_unit h3 \<and> is_hex_unit h4
                      then map_option
                             (\<lambda>(s, rest).
                                ((4096 * hex_unit_val h1 + 256 * hex_unit_val h2
                                  + 16 * hex_unit_val h3 + hex_unit_val h4) # s, rest))
                             (lex_string r')
                      else None)
                 | _ \<Rightarrow> None)
              else
                (case unescape e of
                   None \<Rightarrow> None
                 | Some d \<Rightarrow> map_option (\<lambda>(s, rest). (d # s, rest)) (lex_string r))))
      else if uint c < 32 then None
      else map_option (\<lambda>(s, rest). (c # s, rest)) (lex_string cs))"

text \<open>A number: \<open>-?(0|[1-9][0-9]*)(\.[0-9]+)?([eE][+-]?[0-9]+)?\<close>.\<close>

definition lex_exponent :: "jsstring \<Rightarrow> jsstring \<Rightarrow> (jsstring \<times> jsstring) option" where
  "lex_exponent acc s =
     (case s of
        [] \<Rightarrow> Some (acc, s)
      | c # r \<Rightarrow>
          (if c = 101 \<or> c = 69 then
             (let sign = (case r of x # r' \<Rightarrow> if x = 43 \<or> x = 45 then [x] else [] | [] \<Rightarrow> []);
                  r1 = drop (length sign) r;
                  digits = takeWhile is_digit r1
              in if digits = [] then None
                 else Some (acc @ c # sign @ digits, dropWhile is_digit r1))
           else Some (acc, s)))"

definition lex_fraction :: "jsstring \<Rightarrow> jsstring \<Rightarrow> (jsstring \<times> jsstring) option" where
  "lex_fraction acc s =
     (case s of
        [] \<Rightarrow> lex_exponent acc s
      | c # r \<Rightarrow>
          (if c = 46 then
             (let digits = takeWhile is_digit r
              in if digits = [] then None
                 else lex_exponent (acc @ c # digits) (dropWhile is_digit r))
           else lex_exponent acc s))"

definition lex_number :: "jsstring \<Rightarrow> (jsstring \<times> jsstring) option" where
  "lex_number s =
     (let sign = (case s of c # r \<Rightarrow> if c = 45 then [c] else [] | [] \<Rightarrow> []);
          s1 = drop (length sign) s
      in case s1 of
           [] \<Rightarrow> None
         | d # r \<Rightarrow>
             (if d = 48 then lex_fraction (sign @ [d]) r
              else if is_digit d then
                lex_fraction (sign @ d # takeWhile is_digit r) (dropWhile is_digit r)
              else None))"

lemma lex_string_shorter: "lex_string s = Some (t, r) \<Longrightarrow> length r < length s"
proof (induction s arbitrary: t r rule: lex_string.induct)
  case 1
  then show ?case by simp
next
  case (2 c cs)
  show ?case
  proof (cases "c = 34")
    case True
    with "2.prems" show ?thesis by simp
  next
    case quote: False
    show ?thesis
    proof (cases "c = 92")
      case False
      with quote "2.prems" obtain t' where "lex_string cs = Some (t', r)"
        by (auto split: if_splits)
      from "2.IH"(3) [OF quote False _ this] quote False "2.prems" show ?thesis
        by (auto split: if_splits)
    next
      case True
      with quote "2.prems" obtain e r0 where cs: "cs = e # r0"
        by (cases cs) auto
      show ?thesis
      proof (cases "e = 117")
        case False
        with quote True cs "2.prems" obtain d t' where d: "unescape e = Some d"
          and rec: "lex_string r0 = Some (t', r)"
          by (auto split: option.splits)
        from "2.IH"(2) [OF quote True cs False d rec] cs show ?thesis by simp
      next
        case u: True
        with quote True cs "2.prems" obtain h1 h2 h3 h4 r' where r0: "r0 = h1 # h2 # h3 # h4 # r'"
          by (auto split: list.splits)
        with u quote True cs "2.prems" obtain t' where
          hex: "is_hex_unit h1 \<and> is_hex_unit h2 \<and> is_hex_unit h3 \<and> is_hex_unit h4"
          and rec: "lex_string r' = Some (t', r)"
          by (auto split: if_splits)
        from "2.IH"(1) [OF quote True cs u r0 refl refl refl hex rec] cs r0 show ?thesis
          by simp
      qed
    qed
  qed
qed

lemma lex_exponent_shorter: "lex_exponent acc s = Some (t, r) \<Longrightarrow> length r \<le> length s"
proof -
  have drop_le: "\<And>n xs. length (dropWhile is_digit (drop n xs)) \<le> length (xs :: jsstring)"
    by (metis diff_le_self le_trans length_drop length_dropWhile_le)
  assume "lex_exponent acc s = Some (t, r)"
  then show ?thesis
    using drop_le [of "Suc 0"] drop_le [of 0]
    by (auto simp: lex_exponent_def Let_def le_Suc_eq split: list.splits if_splits)
qed

lemma lex_fraction_shorter: "lex_fraction acc s = Some (t, r) \<Longrightarrow> length r \<le> length s"
proof (cases s)
  case Nil
  then show "lex_fraction acc s = Some (t, r) \<Longrightarrow> length r \<le> length s"
    by (auto simp: lex_fraction_def dest: lex_exponent_shorter)
next
  case (Cons c s')
  assume a: "lex_fraction acc s = Some (t, r)"
  show "length r \<le> length s"
  proof (cases "c = 46")
    case False
    with a Cons show ?thesis
      by (auto simp: lex_fraction_def dest: lex_exponent_shorter)
  next
    case True
    with a Cons have "lex_exponent (acc @ c # takeWhile is_digit s') (dropWhile is_digit s') = Some (t, r)"
      by (auto simp: lex_fraction_def Let_def split: if_splits)
    from lex_exponent_shorter [OF this] have "length r \<le> length (dropWhile is_digit s')" .
    also have "\<dots> \<le> length s'" by (rule length_dropWhile_le)
    finally show ?thesis using Cons by simp
  qed
qed

lemma lex_number_shorter: "lex_number s = Some (t, r) \<Longrightarrow> length r < length s"
proof -
  assume a: "lex_number s = Some (t, r)"
  define sign where "sign = (case s of c # r \<Rightarrow> if c = 45 then [c] else [] | [] \<Rightarrow> [])"
  from a obtain d r0 where s1: "drop (length sign) s = d # r0"
    by (cases "drop (length sign) s") (auto simp: lex_number_def Let_def sign_def)
  then have len: "length r0 < length s"
    by (metis diff_le_self impossible_Cons leI length_drop order_trans)
  from a s1 have "(\<exists>acc. lex_fraction acc r0 = Some (t, r))
      \<or> (\<exists>acc. lex_fraction acc (dropWhile is_digit r0) = Some (t, r))"
    by (auto simp: lex_number_def Let_def sign_def [symmetric] split: if_splits)
  then have "length r \<le> length r0"
    using length_dropWhile_le [of is_digit r0]
    by (auto dest!: lex_fraction_shorter)
  with len show ?thesis by simp
qed

text \<open>The lexer: white space between tokens is a space, a tab, a line feed or a carriage
  return.\<close>

function lex :: "jsstring \<Rightarrow> token list option" where
  "lex [] = Some []"
| "lex (c # cs) =
     (if c = 32 \<or> c = 9 \<or> c = 10 \<or> c = 13 then lex cs
      else if c = 123 then map_option (Cons TLBrace) (lex cs)
      else if c = 125 then map_option (Cons TRBrace) (lex cs)
      else if c = 91 then map_option (Cons TLBracket) (lex cs)
      else if c = 93 then map_option (Cons TRBracket) (lex cs)
      else if c = 58 then map_option (Cons TColon) (lex cs)
      else if c = 44 then map_option (Cons TComma) (lex cs)
      else if c = 34 then
        (case lex_string cs of
           None \<Rightarrow> None
         | Some (s, rest) \<Rightarrow> map_option (Cons (TString s)) (lex rest))
      else if c = 45 \<or> is_digit c then
        (case lex_number (c # cs) of
           None \<Rightarrow> None
         | Some (n, rest) \<Rightarrow> map_option (Cons (TNumber n)) (lex rest))
      else if c = 116 then
        (case strip_prefix (js ''true'') (c # cs) of
           None \<Rightarrow> None
         | Some rest \<Rightarrow> map_option (Cons TTrue) (lex rest))
      else if c = 102 then
        (case strip_prefix (js ''false'') (c # cs) of
           None \<Rightarrow> None
         | Some rest \<Rightarrow> map_option (Cons TFalse) (lex rest))
      else if c = 110 then
        (case strip_prefix (js ''null'') (c # cs) of
           None \<Rightarrow> None
         | Some rest \<Rightarrow> map_option (Cons TNull) (lex rest))
      else None)"
  by pat_completeness auto
termination
proof (relation "measure length", goal_cases)
  case 1
  show ?case by simp
next
  case (9 c cs x2 s rest)
  then show ?case using lex_string_shorter [of cs s rest] by simp
next
  case (10 c cs x2 n rest)
  then show ?case using lex_number_shorter [of "c # cs" n rest] by simp
next
  case (11 c cs rest)
  then show ?case using strip_prefix_length [of "js ''true''" "c # cs" rest]
    by (simp add: js_def)
next
  case (12 c cs rest)
  then show ?case using strip_prefix_length [of "js ''false''" "c # cs" rest]
    by (simp add: js_def)
next
  case (13 c cs rest)
  then show ?case using strip_prefix_length [of "js ''null''" "c # cs" rest]
    by (simp add: js_def)
qed simp_all

text \<open>
  The parser reads the tokens from left to right. \<open>frame\<close> is an array or an object
  whose closing bracket has not been read: the elements so far (last first), or the
  members so far and the key whose value is being read.
\<close>

datatype frame =
    FArray "json list"
  | FObject "(jsstring \<times> json) list" "jsstring option"

datatype expecting =
    AValue
  | AValueOrClose
  | AKeyOrClose
  | AKey
  | AColon
  | ACommaOrClose
  | AEnd json

definition value_done :: "json \<Rightarrow> frame list \<Rightarrow> (expecting \<times> frame list) option" where
  "value_done v stack =
     (case stack of
        [] \<Rightarrow> Some (AEnd v, [])
      | FArray elems # below \<Rightarrow> Some (ACommaOrClose, FArray (v # elems) # below)
      | FObject members (Some k) # below \<Rightarrow>
          Some (ACommaOrClose, FObject (members @ [(k, v)]) None # below)
      | FObject members None # below \<Rightarrow> None)"

definition start_value :: "token \<Rightarrow> frame list \<Rightarrow> (expecting \<times> frame list) option" where
  "start_value t stack =
     (case t of
        TString s \<Rightarrow> value_done (JString s) stack
      | TNumber n \<Rightarrow> value_done (JNumber n) stack
      | TTrue \<Rightarrow> value_done (JBool True) stack
      | TFalse \<Rightarrow> value_done (JBool False) stack
      | TNull \<Rightarrow> value_done JNull stack
      | TLBracket \<Rightarrow> Some (AValueOrClose, FArray [] # stack)
      | TLBrace \<Rightarrow> Some (AKeyOrClose, FObject [] None # stack)
      | _ \<Rightarrow> None)"

definition start_key :: "token \<Rightarrow> frame list \<Rightarrow> (expecting \<times> frame list) option" where
  "start_key t stack =
     (case (t, stack) of
        (TString k, FObject members None # below) \<Rightarrow>
          Some (AColon, FObject members (Some k) # below)
      | _ \<Rightarrow> None)"

definition close_frame :: "token \<Rightarrow> frame list \<Rightarrow> (expecting \<times> frame list) option" where
  "close_frame t stack =
     (case (t, stack) of
        (TRBracket, FArray elems # below) \<Rightarrow> value_done (JArray (rev elems)) below
      | (TRBrace, FObject members None # below) \<Rightarrow> value_done (JObject members) below
      | _ \<Rightarrow> None)"

definition parse_step ::
  "expecting \<times> frame list \<Rightarrow> token \<Rightarrow> (expecting \<times> frame list) option" where
  "parse_step state t =
     (case state of
        (AValue, stack) \<Rightarrow> start_value t stack
      | (AValueOrClose, stack) \<Rightarrow>
          (if t = TRBracket then close_frame t stack else start_value t stack)
      | (AKeyOrClose, stack) \<Rightarrow>
          (if t = TRBrace then close_frame t stack else start_key t stack)
      | (AKey, stack) \<Rightarrow> start_key t stack
      | (AColon, stack) \<Rightarrow> (if t = TColon then Some (AValue, stack) else None)
      | (ACommaOrClose, stack) \<Rightarrow>
          (if t = TComma then
             (case stack of
                FArray elems # below \<Rightarrow> Some (AValue, stack)
              | FObject members None # below \<Rightarrow> Some (AKey, stack)
              | _ \<Rightarrow> None)
           else close_frame t stack)
      | (AEnd v, stack) \<Rightarrow> None)"

fun parse_tokens :: "expecting \<times> frame list \<Rightarrow> token list \<Rightarrow> (expecting \<times> frame list) option" where
  "parse_tokens state [] = Some state"
| "parse_tokens state (t # ts) =
     (case parse_step state t of None \<Rightarrow> None | Some state' \<Rightarrow> parse_tokens state' ts)"

definition JSON_parse :: "jsstring \<Rightarrow> js_error + json" where
  "JSON_parse text =
     (case lex text of
        None \<Rightarrow> Inl SyntaxError
      | Some tokens \<Rightarrow>
          (case parse_tokens (AValue, []) tokens of
             Some (AEnd v, []) \<Rightarrow> Inr v
           | _ \<Rightarrow> Inl SyntaxError))"

section \<open>The capture and the platform\<close>

text \<open>The interfaces \<open>HarHeader\<close>, \<open>HarEntry\<close> and \<open>GeneratorOptions\<close>. \<open>Content\<close> is the
  shape of both \<open>request.postData\<close> and \<open>response.content\<close>; a field marked \<open>?\<close> in the
  source is an option. The options are those the generation reads, after their defaults
  (\<open>mergeTypes = true\<close>, \<open>typePrefix = ""\<close>) have been filled in.\<close>

record HarHeader =
  header_name :: jsstring
  header_value :: jsstring

record Content =
  content_text :: "jsstring option"
  content_mimeType :: "jsstring option"

record HarRequest =
  req_method :: jsstring
  req_url :: jsstring
  req_headers :: "HarHeader list"
  req_postData :: "Content option"

record HarResponse =
  resp_content :: "Content option"

record HarEntry =
  har_request :: HarRequest
  har_response :: HarResponse

record GeneratorOptions =
  mergeTypes :: bool
  typePrefix :: jsstring

text \<open>What the code reads of a \<open>URL\<close> object.\<close>

record URL =
  url_origin :: jsstring
  url_pathname :: jsstring
  url_searchParams :: "(jsstring \<times> jsstring) list"

text \<open>
  The parts of the platform and of the library \<open>json-to-ts\<close> that are not modelled are
  parameters of the generation: \<open>new URL(text)\<close>, which throws a \<open>TypeError\<close> or gives a
  URL; \<open>jsonToTS(data, {rootName, propertyFormatter: normalizePropertyName})\<close>, which
  throws or gives the texts of the types, and may have called \<open>normalizePropertyName\<close>,
  so that it gets the property registry and returns it; \<open>toUpperCase\<close> and
  \<open>toLowerCase\<close> on arbitrary strings; and \<open>new Date().toISOString()\<close>.
\<close>

record platform =
  new_URL :: "jsstring \<Rightarrow> js_error + URL"
  jsonToTS :: "jsstring \<Rightarrow> json \<Rightarrow> registry \<Rightarrow> (js_error + jsstring list) \<times> registry"
  toUpperCase :: "jsstring \<Rightarrow> jsstring"
  toLowerCase :: "jsstring \<Rightarrow> jsstring"
  toISOString_now :: jsstring

section \<open>generateTypeFromJSON\<close>

text \<open>One match of \<open>/\bexport\s+/\<close> at the start of \<open>s\<close>; the word boundary is checked by
  the caller.\<close>

definition match_export :: "jsstring \<Rightarrow> jsstring option" where
  "match_export s =
     (case strip_prefix (js ''export'') s of
        None \<Rightarrow> None
      | Some r1 \<Rightarrow>
          (let r2 = dropWhile is_space r1 in if length r2 < length r1 then Some r2 else None))"

lemma match_export_shorter: "match_export s = Some r \<Longrightarrow> length r < length s"
  by (auto simp: match_export_def Let_def split: option.splits if_splits
      dest!: strip_prefix_length)

text \<open>\<open>type.replace(/\bexport\s+/g, "")\<close>: \<open>after_word\<close> says that the character before
  the text is a word character, so that no word starts here.\<close>

function strip_export :: "bool \<Rightarrow> jsstring \<Rightarrow> jsstring" where
  "strip_export after_word [] = []"
| "strip_export after_word (c # cs) =
     (case (if after_word then None else match_export (c # cs)) of
        Some r \<Rightarrow> strip_export False r
      | None \<Rightarrow> c # strip_export (is_word c) cs)"
  by pat_completeness auto
termination
  by (relation "measure (\<lambda>(b, s). length s)")
     (auto dest: match_export_shorter split: if_splits)

text \<open>The loop over \<open>types\<close>: \<open>uniqueTypes\<close> keeps, for each fingerprint, the first type
  that has it. (\<open>type.replace(/^interface/, "interface")\<close> changes nothing.)\<close>

fun unique_types :: "jsstring list \<Rightarrow> (jsstring \<times> jsstring) list \<Rightarrow> (jsstring \<times> jsstring) list" where
  "unique_types [] uniqueTypes = uniqueTypes"
| "unique_types (type # types) uniqueTypes =
     (let cleanType = strip_export False type;
          hash = hashType cleanType
      in unique_types types
           (if Map_has uniqueTypes hash then uniqueTypes else Map_set uniqueTypes hash type))"

definition generateTypeFromJSON ::
  "platform \<Rightarrow> jsstring \<Rightarrow> json \<Rightarrow> run_state \<Rightarrow> (js_error + jsstring) \<times> run_state" where
  "generateTypeFromJSON P name data st =
     (case jsonToTS P name data (propertyRegistry st) of
        (Inl error, reg') \<Rightarrow> (Inl error, st\<lparr>propertyRegistry := reg'\<rparr>)
      | (Inr types, reg') \<Rightarrow>
          (Inr (join (js ''\<newline>'') (Map_values (unique_types types []))),
           st\<lparr>propertyRegistry := reg'\<rparr>))"

section \<open>generateTypeFromData\<close>

text \<open>The parameter \<open>data: string | object\<close>.\<close>

datatype payload = Text jsstring | Object json

text \<open>\<open>s.includes(p)\<close>\<close>

fun string_includes :: "jsstring \<Rightarrow> jsstring \<Rightarrow> bool" where
  "string_includes [] p = (p = [])"
| "string_includes (c # cs) p = (startsWith (c # cs) p \<or> string_includes cs p)"

text \<open>\<open>parsed && typeof parsed === "object"\<close>: \<open>null\<close> is falsy, and only arrays and
  objects have the type \<open>"object"\<close>.\<close>

definition is_object :: "json \<Rightarrow> bool" where
  "is_object v = (case v of JArray elems \<Rightarrow> True | JObject members \<Rightarrow> True | _ \<Rightarrow> False)"

text \<open>The body of the \<open>try\<close>.\<close>

definition generateTypeFromData_try ::
  "platform \<Rightarrow> jsstring \<Rightarrow> payload \<Rightarrow> jsstring option \<Rightarrow> run_state
     \<Rightarrow> (js_error + jsstring) \<times> run_state" where
  "generateTypeFromData_try P name data mimeType st =
     (if (case mimeType of
            Some m \<Rightarrow> string_includes m (js ''application/x-www-form-urlencoded'')
          | None \<Rightarrow> False)
      then (case data of
              Text formData \<Rightarrow> generateTypeFromFormData name formData st
            | Object v \<Rightarrow> (Inl (Error ''Form data must be a string''), st))
      else (case (case data of Text s \<Rightarrow> JSON_parse s | Object v \<Rightarrow> Inr v) of
              Inl error \<Rightarrow> (Inl error, st)
            | Inr parsed \<Rightarrow>
                (if \<not> is_object parsed then (Inl (Error ''Invalid JSON: not an object''), st)
                 else generateTypeFromJSON P name parsed st)))"

definition fallback_any :: "jsstring \<Rightarrow> run_state \<Rightarrow> (js_error + jsstring) \<times> run_state" where
  "fallback_any name st = (Inr (js ''type '' @ name @ js '' = any;''), warn (FallbackToAny name) st)"

text \<open>The handler of the \<open>catch\<close>: a text that is not JSON is read as form data; else,
  or if that throws as well, the result is the alias of \<open>any\<close>, with a warning.\<close>

definition generateTypeFromData_catch ::
  "jsstring \<Rightarrow> payload \<Rightarrow> js_error \<Rightarrow> run_state \<Rightarrow> (js_error + jsstring) \<times> run_state" where
  "generateTypeFromData_catch name data error st =
     (case (if error = SyntaxError
            then (case data of Text s \<Rightarrow> Some s | Object v \<Rightarrow> None) else None) of
        Some formData \<Rightarrow>
          (case generateTypeFromFormData name formData st of
             (Inr text, st') \<Rightarrow> (Inr text, st')
           | (Inl formError, st') \<Rightarrow> fallback_any name (warn (JsonAndFormFailed name) st'))
      | None \<Rightarrow> fallback_any name st)"

definition generateTypeFromData ::
  "platform \<Rightarrow> jsstring \<Rightarrow> payload \<Rightarrow> jsstring option \<Rightarrow> run_state
     \<Rightarrow> (js_error + jsstring) \<times> run_state" where
  "generateTypeFromData P name data mimeType st =
     (case generateTypeFromData_try P name data mimeType st of
        (Inr text, st1) \<Rightarrow> (Inr text, st1)
      | (Inl error, st1) \<Rightarrow> generateTypeFromData_catch name data error st1)"

section \<open>generateFromHar\<close>

text \<open>\<open>url.pathname.split("/").filter(Boolean)\<close>, and its last piece or \<open>"root"\<close>.\<close>

definition getResourceName :: "URL \<Rightarrow> jsstring" where
  "getResourceName url =
     (let pathParts = filter (\<lambda>part. part \<noteq> []) (split_char 47 (url_pathname url))
      in if pathParts = [] then js ''root'' else last pathParts)"

text \<open>\<open>.replace(/_+/g, "_")\<close>\<close>

fun collapse_underscores :: "jsstring \<Rightarrow> jsstring" where
  "collapse_underscores [] = []"
| "collapse_underscores [c] = [c]"
| "collapse_underscores (c # d # cs) =
     (if c = 95 \<and> d = 95 then collapse_underscores (d # cs) else c # collapse_underscores (d # cs))"

text \<open>\<open>url.replace(/^https?:\/\//, "")\<close>\<close>

definition strip_http :: "jsstring \<Rightarrow> jsstring" where
  "strip_http url =
     (case strip_prefix (js ''https://'') url of
        Some r \<Rightarrow> r
      | None \<Rightarrow> (case strip_prefix (js ''http://'') url of Some r \<Rightarrow> r | None \<Rightarrow> url))"

definition createFunctionName :: "platform \<Rightarrow> jsstring \<Rightarrow> jsstring \<Rightarrow> jsstring" where
  "createFunctionName P url method =
     (let clean = takeWhile (\<lambda>c. c \<noteq> 63 \<and> c \<noteq> 35) (strip_http url);
          clean = collapse_underscores (map (\<lambda>c. if is_alnum c then c else 95) clean);
          clean = take 80 clean
      in toLowerCase P method @ js ''_'' @ clean)"

text \<open>\<open>value.replace(/"/g, '\\"')\<close>: a backslash before every double quote.\<close>

definition escapeHeaderValue :: "jsstring \<Rightarrow> jsstring" where
  "escapeHeaderValue v = concat (map (\<lambda>c. if c = 34 then [92, 34] else [c]) v)"

text \<open>The text \<open>output\<close> starts with.\<close>

definition output_header :: "platform \<Rightarrow> jsstring" where
  "output_header P =
     js ''// Generated TypeScript SDK\<newline>// Generated on: '' @ toISOString_now P
     @ js ''\<newline>\<newline>import * as qs from '' @ [39] @ js ''qs'' @ [39]
     @ js '';\<newline>\<newline>export type RequestInit = Parameters<typeof fetch>[1];\<newline>''
     @ js ''export type RequestInfo = Parameters<typeof fetch>[0];\<newline>''
     @ js ''export type Response = ReturnType<typeof fetch> extends Promise<infer T> ? T : never;\<newline>''
     @ js ''\<newline>export interface ApiOptions extends Omit<RequestInit, '' @ [39] @ js ''body'' @ [39]
     @ js '' | '' @ [39] @ js ''method'' @ [39]
     @ js ''> {\<newline>  baseUrl?: string;\<newline>  headers?: HeadersInit;\<newline>}\<newline>''
     @ js ''\<newline>export const defaultOptions: ApiOptions = {\<newline>  headers: {\<newline>    ''
     @ [39] @ js ''Content-Type'' @ [39] @ js '': '' @ [39] @ js ''application/json'' @ [39]
     @ js '',\<newline>  },\<newline>};\<newline>''
     @ js ''\<newline>export interface ResponseBase<T = unknown> {\<newline>  data?: T;\<newline>}\<newline>''"

text \<open>The filter \<open>e.request.url.startsWith("http")\<close>.\<close>

definition http_entries :: "HarEntry list \<Rightarrow> HarEntry list" where
  "http_entries entries = filter (\<lambda>e. startsWith (req_url (har_request e)) (js ''http'')) entries"

text \<open>The grouping loop: \<open>new URL\<close> may throw, which ends the run.\<close>

fun group_entries ::
  "platform \<Rightarrow> HarEntry list \<Rightarrow> (jsstring \<times> HarEntry list) list
     \<Rightarrow> js_error + (jsstring \<times> HarEntry list) list" where
  "group_entries P [] endpointGroups = Inr endpointGroups"
| "group_entries P (entry # entries) endpointGroups =
     (case new_URL P (req_url (har_request entry)) of
        Inl error \<Rightarrow> Inl error
      | Inr url \<Rightarrow>
          (let resource = getResourceName url;
               key = req_method (har_request entry) @ js ''_'' @ resource;
               members = (case Map_get endpointGroups key of None \<Rightarrow> [] | Some es \<Rightarrow> es)
           in group_entries P entries (Map_set endpointGroups key (members @ [entry]))))"

text \<open>The loops that collect the query parameters of a group: \<open>allQueryParams\<close> maps each
  key to the set of its values, here the values in the order they were first seen.\<close>

fun add_params ::
  "(jsstring \<times> jsstring) list \<Rightarrow> (jsstring \<times> jsstring list) list
     \<Rightarrow> (jsstring \<times> jsstring list) list" where
  "add_params [] allQueryParams = allQueryParams"
| "add_params ((key, v) # params) allQueryParams =
     (let seen = (case Map_get allQueryParams key of None \<Rightarrow> [] | Some vs \<Rightarrow> vs)
      in add_params params
           (Map_set allQueryParams key (if v \<in> set seen then seen else seen @ [v])))"

fun collect_params ::
  "platform \<Rightarrow> HarEntry list \<Rightarrow> (jsstring \<times> jsstring list) list
     \<Rightarrow> js_error + (jsstring \<times> jsstring list) list" where
  "collect_params P [] allQueryParams = Inr allQueryParams"
| "collect_params P (entry # entries) allQueryParams =
     (case new_URL P (req_url (har_request entry)) of
        Inl error \<Rightarrow> Inl error
      | Inr entryUrl \<Rightarrow>
          collect_params P entries (add_params (url_searchParams entryUrl) allQueryParams))"

text \<open>The lines of the parameter interface: one call of \<open>normalizePropertyName\<close> for
  each key.\<close>

fun param_lines :: "jsstring list \<Rightarrow> registry \<Rightarrow> jsstring list \<times> registry" where
  "param_lines [] reg = ([], reg)"
| "param_lines (key # keys) reg =
     (case normalizePropertyName key reg of
        (propName, reg') \<Rightarrow>
          (case param_lines keys reg' of
             (ls, reg'') \<Rightarrow>
               ((js ''  '' @ propName @ js ''?: string | number | boolean;'') # ls, reg'')))"

definition param_interface :: "jsstring \<Rightarrow> jsstring list \<Rightarrow> jsstring" where
  "param_interface paramsTypeName ls =
     js ''interface '' @ paramsTypeName @ js '' {\<newline>'' @ join (js ''\<newline>'') ls @ js ''\<newline>}''"

text \<open>
  What both loops do with the definition inferred for a body, named \<open>register\<close> after
  the specification: the first type of the registry with the same hash is looked up; if
  there is none, or types are not merged, the definition is stored under \<open>typeName\<close> and
  written to the output. The result is the name to use and whether the definition was
  written.
\<close>

definition register ::
  "bool \<Rightarrow> jsstring \<Rightarrow> jsstring \<Rightarrow> run_state \<Rightarrow> (jsstring \<times> bool) \<times> run_state" where
  "register merge typeName definition st =
     (let hash = hashType definition;
          existingType = find (\<lambda>t. entry_hash t = hash) (Map_values (typeRegistry st))
      in case (if merge then existingType else None) of
           None \<Rightarrow>
             ((typeName, True),
              st\<lparr>typeRegistry :=
                    Map_set (typeRegistry st) typeName
                      \<lparr>entry_name = typeName, entry_definition = definition, entry_hash = hash\<rparr>,
                  output := output st @ js ''\<newline>export '' @ definition @ js ''\<newline>''\<rparr>)
         | Some t \<Rightarrow> ((entry_name t, False), st))"

text \<open>\<open>`${typeRegistry.size || ""}`\<close>\<close>

definition size_suffix :: "run_state \<Rightarrow> jsstring" where
  "size_suffix st = (if Map_size (typeRegistry st) = 0 then [] else decimal (Map_size (typeRegistry st)))"

text \<open>A body text that is there and not empty, with its mime type.\<close>

definition body_of :: "Content option \<Rightarrow> (jsstring \<times> jsstring option) option" where
  "body_of content =
     (case content of
        None \<Rightarrow> None
      | Some c \<Rightarrow>
          (case content_text c of
             None \<Rightarrow> None
           | Some t \<Rightarrow> if t = [] then None else Some (t, content_mimeType c)))"

text \<open>Inference and registration for one body.\<close>

definition infer_and_register ::
  "platform \<Rightarrow> GeneratorOptions \<Rightarrow> jsstring \<Rightarrow> jsstring \<Rightarrow> jsstring option \<Rightarrow> run_state
     \<Rightarrow> (js_error + jsstring) \<times> run_state" where
  "infer_and_register P opts stem body mimeType st =
     (let typeName = stem @ size_suffix st
      in case generateTypeFromData P typeName (Text body) mimeType st of
           (Inl error, st1) \<Rightarrow> (Inl error, st1)
         | (Inr definition, st1) \<Rightarrow>
             (case register (mergeTypes opts) typeName definition st1 of
                ((final, emitted), st2) \<Rightarrow> (Inr final, st2)))"

text \<open>The loop over the request bodies of a group: an error ends the run.\<close>

fun body_loop ::
  "platform \<Rightarrow> GeneratorOptions \<Rightarrow> jsstring \<Rightarrow> HarEntry list \<Rightarrow> jsstring \<Rightarrow> run_state
     \<Rightarrow> (js_error + jsstring) \<times> run_state" where
  "body_loop P opts requestTypeName [] bodyType st = (Inr bodyType, st)"
| "body_loop P opts requestTypeName (entry # entries) bodyType st =
     (case body_of (req_postData (har_request entry)) of
        None \<Rightarrow> body_loop P opts requestTypeName entries bodyType st
      | Some (body, mimeType) \<Rightarrow>
          (case infer_and_register P opts requestTypeName body mimeType st of
             (Inl error, st') \<Rightarrow> (Inl error, st')
           | (Inr final, st') \<Rightarrow> body_loop P opts requestTypeName entries final st'))"

text \<open>The loop over the response bodies: an error is caught, a warning names the URL of
  the group's first request, and the loop goes on.\<close>

fun response_loop ::
  "platform \<Rightarrow> GeneratorOptions \<Rightarrow> jsstring \<Rightarrow> jsstring \<Rightarrow> HarEntry list \<Rightarrow> jsstring
     \<Rightarrow> run_state \<Rightarrow> jsstring \<times> run_state" where
  "response_loop P opts responseTypeName firstUrl [] responseType st = (responseType, st)"
| "response_loop P opts responseTypeName firstUrl (entry # entries) responseType st =
     (case body_of (resp_content (har_response entry)) of
        None \<Rightarrow> response_loop P opts responseTypeName firstUrl entries responseType st
      | Some (body, mimeType) \<Rightarrow>
          (case infer_and_register P opts responseTypeName body mimeType st of
             (Inl error, st') \<Rightarrow>
               response_loop P opts responseTypeName firstUrl entries responseType
                 (warn (ResponseParseFailed firstUrl) st')
           | (Inr final, st') \<Rightarrow>
               response_loop P opts responseTypeName firstUrl entries
                 (js ''ResponseBase<'' @ final @ js ''>'') st'))"

text \<open>The text of the function of a group.\<close>

definition header_lines :: "HarHeader list \<Rightarrow> jsstring" where
  "header_lines hs =
     join (js '',\<newline>      '')
       (map (\<lambda>h. [39] @ header_name h @ [39] @ js '': '' @ [39]
                   @ escapeHeaderValue (header_value h) @ [39])
          (filter (\<lambda>h. \<not> startsWith (header_name h) (js '':'')) hs))"

definition function_text ::
  "platform \<Rightarrow> HarRequest \<Rightarrow> URL \<Rightarrow> jsstring \<Rightarrow> jsstring \<Rightarrow> jsstring \<Rightarrow> jsstring" where
  "function_text P request url paramsType bodyType responseType =
     js ''\<newline>/**\<newline> * '' @ toUpperCase P (req_method request) @ js '' '' @ url_pathname url
     @ js ''\<newline> */\<newline>export async function ''
     @ createFunctionName P (req_url request) (req_method request)
     @ js ''(\<newline>  params?: '' @ paramsType
     @ js '',\<newline>  body?: '' @ bodyType
     @ js '',\<newline>  options: ApiOptions = {}\<newline>): Promise<'' @ responseType
     @ js ''> {\<newline>  const { baseUrl = '' @ [39] @ url_origin url @ [39]
     @ js '', headers = {}, ...fetchOptions } = { ...defaultOptions, ...options };\<newline>''
     @ js ''  const query = params ? `?${qs.stringify(params)}` : '' @ [39, 39]
     @ js '';\<newline>  const requestUrl = `${baseUrl}'' @ url_pathname url @ js ''${query}`;\<newline>''
     @ js ''\<newline>  const response = await fetch(requestUrl, {\<newline>    method: ''
     @ [39] @ req_method request @ [39]
     @ js '',\<newline>    headers: {\<newline>      ...headers,\<newline>      ''
     @ header_lines (req_headers request)
     @ js ''\<newline>    },\<newline>    ''
     @ (if bodyType \<noteq> js ''undefined'' then js ''body: JSON.stringify(body),'' else [])
     @ js ''\<newline>    ...fetchOptions,\<newline>  });\<newline>\<newline>  if (!response.ok) {\<newline>''
     @ js ''    throw new Error(`HTTP error! status: ${response.status}`);\<newline>  }\<newline>''
     @ js ''\<newline>  return response.json();\<newline>}\<newline>''"

text \<open>One round of the loop over the groups. A group holds at least one entry; the empty
  list is there for the function to be total, and changes nothing.\<close>

definition process_group ::
  "platform \<Rightarrow> GeneratorOptions \<Rightarrow> HarEntry list \<Rightarrow> run_state \<Rightarrow> js_error + run_state" where
  "process_group P opts groupEntries st =
     (case groupEntries of
        [] \<Rightarrow> Inr st
      | firstEntry # others \<Rightarrow>
          (let request = har_request firstEntry
           in case new_URL P (req_url request) of
                Inl error \<Rightarrow> Inl error
              | Inr url \<Rightarrow>
                  (let resource = getResourceName url;
                       baseTypeName = normalizeTypeName resource;
                       requestTypeName = typePrefix opts @ baseTypeName @ js ''Request'';
                       responseTypeName = typePrefix opts @ baseTypeName @ js ''Response'';
                       paramsTypeName = typePrefix opts @ baseTypeName @ js ''Params''
                   in case collect_params P groupEntries [] of
                        Inl error \<Rightarrow> Inl error
                      | Inr allQueryParams \<Rightarrow>
                          (case (if allQueryParams = []
                                 then (js ''{[key: string]: string | number | boolean | undefined}'', st)
                                 else (case param_lines (map fst allQueryParams) (propertyRegistry st) of
                                         (ls, reg') \<Rightarrow>
                                           (paramsTypeName,
                                            st\<lparr>propertyRegistry := reg',
                                                output := output st @ js ''\<newline>export ''
                                                  @ param_interface paramsTypeName ls @ js ''\<newline>''\<rparr>))) of
                             (paramsType, st1) \<Rightarrow>
                               (case body_loop P opts requestTypeName groupEntries (js ''undefined'') st1 of
                                  (Inl error, st2) \<Rightarrow> Inl error
                                | (Inr bodyType, st2) \<Rightarrow>
                                    (case response_loop P opts responseTypeName (req_url request)
                                            groupEntries (js ''ResponseBase<unknown>'') st2 of
                                       (responseType, st3) \<Rightarrow>
                                         Inr (st3\<lparr>output := output st3
                                                @ function_text P request url paramsType bodyType
                                                    responseType\<rparr>)))))))"

fun process_groups ::
  "platform \<Rightarrow> GeneratorOptions \<Rightarrow> HarEntry list list \<Rightarrow> run_state \<Rightarrow> js_error + run_state" where
  "process_groups P opts [] st = Inr st"
| "process_groups P opts (groupEntries # groups) st =
     (case process_group P opts groupEntries st of
        Inl error \<Rightarrow> Inl error
      | Inr st' \<Rightarrow> process_groups P opts groups st')"

text \<open>
  The generation, from the entries of the capture (\<open>har.log.entries\<close>, read and
  validated) to the text that is handed to the formatter, with the registries and
  warnings of the run; an error is what the function rethrows.
\<close>

definition initial_state :: "platform \<Rightarrow> run_state" where
  "initial_state P =
     \<lparr>propertyRegistry = [], warnings = [], typeRegistry = [], output = output_header P\<rparr>"

definition generateFromHar ::
  "platform \<Rightarrow> GeneratorOptions \<Rightarrow> HarEntry list \<Rightarrow> js_error + run_state" where
  "generateFromHar P opts har_entries =
     (let entries = http_entries har_entries
      in case group_entries P entries [] of
           Inl error \<Rightarrow> Inl error
         | Inr endpointGroups \<Rightarrow>
             process_groups P opts (Map_values endpointGroups) (initial_state P))"

text \<open>How the declaration of a group's parameter interface starts in the output: the
  name is the prefix, the title-cased resource name and \<open>Params\<close>.\<close>

definition params_decl_head :: "GeneratorOptions \<Rightarrow> jsstring \<Rightarrow> jsstring" where
  "params_decl_head opts resource =
     js ''\<newline>export interface '' @ typePrefix opts @ normalizeTypeName resource @ js ''Params {\<newline>''"

section \<open>A platform for the examples\<close>

text \<open>
  The examples below need a platform to run on. \<open>plain_URL\<close> reads a text
  \<open>http://host/path?query\<close> or \<open>https://host/path?query\<close> whose host is made of lower-case
  letters, dots and hyphens, whose path is made of letters, digits, \<open>/\<close>, \<open>-\<close> and \<open>_\<close>,
  and whose query is made of letters, digits and \<open>= & - _ .\<close>; on the URLs of
  the examples the URL Standard changes nothing, so the parts are the pieces of the text.
  It throws on every other text. A text without a scheme (no \<open>:\<close> after its leading letters, digits, \<open>+\<close>,
  \<open>-\<close> and \<open>.\<close>) is one the platform rejects as well, there being no base URL.
  \<open>plain_platform\<close> has no \<open>json-to-ts\<close>: its \<open>jsonToTS\<close> throws, and the examples do not
  reach it. Its case mappings are the ASCII ones.
\<close>

definition is_host_char :: "jschar \<Rightarrow> bool" where
  "is_host_char c = (is_lower c \<or> c = 46 \<or> c = 45)"

definition is_path_char :: "jschar \<Rightarrow> bool" where
  "is_path_char c = (is_alnum c \<or> c = 47 \<or> c = 45 \<or> c = 95)"

definition is_query_char :: "jschar \<Rightarrow> bool" where
  "is_query_char c = (is_alnum c \<or> c = 61 \<or> c = 38 \<or> c = 45 \<or> c = 95 \<or> c = 46)"

definition plain_URL :: "jsstring \<Rightarrow> js_error + URL" where
  "plain_URL s =
     (case (case strip_prefix (js ''https://'') s of
              Some r \<Rightarrow> Some (js ''https://'', r)
            | None \<Rightarrow> map_option (Pair (js ''http://'')) (strip_prefix (js ''http://'') s)) of
        None \<Rightarrow> Inl TypeError
      | Some (scheme, r) \<Rightarrow>
          (let host = takeWhile is_host_char r;
               r1 = dropWhile is_host_char r;
               path = takeWhile is_path_char r1;
               r2 = dropWhile is_path_char r1;
               query = (case r2 of c # q \<Rightarrow> q | [] \<Rightarrow> [])
           in if host = [] \<or> (path \<noteq> [] \<and> hd path \<noteq> 47) \<or> (r2 \<noteq> [] \<and> hd r2 \<noteq> 63)
                 \<or> \<not> list_all is_query_char query
              then Inl TypeError
              else Inr \<lparr>url_origin = scheme @ host,
                        url_pathname = (if path = [] then js ''/'' else path),
                        url_searchParams = URLSearchParams query\<rparr>))"

definition plain_platform :: platform where
  "plain_platform =
     \<lparr>new_URL = plain_URL,
      jsonToTS = (\<lambda>rootName data reg. (Inl (Error ''json-to-ts is not part of this platform''), reg)),
      toUpperCase = map ascii_upper,
      toLowerCase = map ascii_lower,
      toISOString_now = js ''2024-01-01T00:00:00.000Z''\<rparr>"

text \<open>An entry with a method, a URL and a request body, and nothing else; a body with
  the mime type of JSON or of form data; the options of \<open>runHarToTs\<close>.\<close>

definition simple_entry :: "string \<Rightarrow> string \<Rightarrow> Content option \<Rightarrow> HarEntry" where
  "simple_entry m u body =
     \<lparr>har_request = \<lparr>req_method = js m, req_url = js u, req_headers = [], req_postData = body\<rparr>,
      har_response = \<lparr>resp_content = None\<rparr>\<rparr>"

definition json_body :: "string \<Rightarrow> Content option" where
  "json_body t = Some \<lparr>content_text = Some (js t), content_mimeType = Some (js ''application/json'')\<rparr>"

definition form_body :: "string \<Rightarrow> Content option" where
  "form_body t =
     Some \<lparr>content_text = Some (js t),
           content_mimeType = Some (js ''application/x-www-form-urlencoded'')\<rparr>"

definition default_options :: GeneratorOptions where
  "default_options = \<lparr>mergeTypes = True, typePrefix = []\<rparr>"

text \<open>The state of a run before anything is written.\<close>

definition empty_state :: run_state where
  "empty_state = \<lparr>propertyRegistry = [], warnings = [], typeRegistry = [], output = []\<rparr>"

section \<open>Properties\<close>

subsection \<open>The identifier registry\<close>

lemma unique_loop_fresh: "unique_loop vals b u c \<notin> set vals"
proof (induction vals b u c rule: unique_loop.induct)
  case (1 vals b u c)
  then show ?case by (subst unique_loop.simps) simp
qed

lemma Map_get_in_values: "Map_get m k = Some v \<Longrightarrow> v \<in> set (Map_values m)"
  by (induction m) (auto simp: Map_values_def split: if_splits)

lemma Map_get_set: "Map_get (Map_set m k v) k' = (if k' = k then Some v else Map_get m k')"
  by (induction m) auto

definition reg_inj :: "registry \<Rightarrow> bool" where
  "reg_inj reg = (\<forall>a b v. Map_get reg a = Some v \<and> Map_get reg b = Some v \<longrightarrow> a = b)"

lemma normalizePropertyName_get:
  "normalizePropertyName name reg = (ident, reg') \<Longrightarrow> Map_get reg' name = Some ident"
  by (auto simp: normalizePropertyName_def Let_def Map_get_set split: option.splits)

lemma normalizePropertyName_mono:
  "normalizePropertyName name reg = (ident, reg') \<Longrightarrow> Map_get reg k = Some v
     \<Longrightarrow> Map_get reg' k = Some v"
  by (auto simp: normalizePropertyName_def Let_def Map_get_set split: option.splits)

lemma normalizePropertyName_inj:
  assumes "normalizePropertyName name reg = (ident, reg')" and "reg_inj reg"
  shows "reg_inj reg'"
proof (cases "Map_get reg name")
  case (Some known)
  with assms show ?thesis by (simp add: normalizePropertyName_def)
next
  case None
  define u where "u = unique_loop (Map_values reg)
     (underscore_non_word (strip_noise_prefix name)) (underscore_non_word (strip_noise_prefix name)) 1"
  from None assms(1) have reg': "reg' = Map_set reg name u"
    by (auto simp: normalizePropertyName_def Let_def u_def)
  have fresh: "\<And>k. Map_get reg k \<noteq> Some u"
    using unique_loop_fresh Map_get_in_values unfolding u_def by metis
  show ?thesis
    unfolding reg_inj_def reg' Map_get_set
    using assms(2) fresh unfolding reg_inj_def
    by (metis option.inject)
qed

lemma normalize_calls_length:
  "normalize_calls names reg = (idents, reg') \<Longrightarrow> length idents = length names"
  by (induction names arbitrary: reg idents) (auto split: prod.splits)

lemma normalize_calls_mono:
  "normalize_calls names reg = (idents, reg') \<Longrightarrow> Map_get reg k = Some v
     \<Longrightarrow> Map_get reg' k = Some v"
proof (induction names arbitrary: reg idents)
  case Nil
  then show ?case by simp
next
  case (Cons name names)
  then show ?case
    by (auto split: prod.splits dest: normalizePropertyName_mono)
qed

lemma normalize_calls_inj:
  "normalize_calls names reg = (idents, reg') \<Longrightarrow> reg_inj reg \<Longrightarrow> reg_inj reg'"
proof (induction names arbitrary: reg idents)
  case Nil
  then show ?case by simp
next
  case (Cons name names)
  then show ?case
    by (auto split: prod.splits dest: normalizePropertyName_inj)
qed

lemma normalize_calls_get:
  "normalize_calls names reg = (idents, reg') \<Longrightarrow> i < length names
     \<Longrightarrow> Map_get reg' (names ! i) = Some (idents ! i)"
proof (induction names arbitrary: reg idents i)
  case Nil
  then show ?case by simp
next
  case (Cons name names)
  obtain ident reg1 where 1: "normalizePropertyName name reg = (ident, reg1)"
    by (cases "normalizePropertyName name reg")
  obtain rest reg2 where 2: "normalize_calls names reg1 = (rest, reg2)"
    by (cases "normalize_calls names reg1")
  from Cons.prems 1 2 have eq: "idents = ident # rest" "reg' = reg2" by auto
  from 2 eq have 2: "normalize_calls names reg1 = (rest, reg')" by simp
  show ?case
  proof (cases i)
    case 0
    from normalizePropertyName_get [OF 1] normalize_calls_mono [OF 2]
    show ?thesis using 0 eq by simp
  next
    case (Suc j)
    with Cons.prems have "j < length names" by simp
    from Cons.IH [OF 2 this] show ?thesis using Suc eq by simp
  qed
qed

text \<open>
  C3. Within one run (the registry starts empty, as \<open>generateFromHar\<close> clears it),
  whatever raw names are normalized and in whatever order: two calls return the same
  identifier exactly when they were given the same raw name. So different raw names never
  share an identifier, and a raw name keeps the identifier it was first given.
\<close>

theorem normalize_injective_stable:
  assumes "normalize_calls names [] = (idents, reg)"
    and "i < length names" and "j < length names"
  shows "(idents ! i = idents ! j) = (names ! i = names ! j)"
proof -
  have "reg_inj []" by (simp add: reg_inj_def)
  from normalize_calls_inj [OF assms(1) this] have inj: "reg_inj reg" .
  have gi: "Map_get reg (names ! i) = Some (idents ! i)"
    by (rule normalize_calls_get [OF assms(1) assms(2)])
  have gj: "Map_get reg (names ! j) = Some (idents ! j)"
    by (rule normalize_calls_get [OF assms(1) assms(3)])
  show ?thesis
  proof
    assume "idents ! i = idents ! j"
    with gi gj inj show "names ! i = names ! j"
      unfolding reg_inj_def by metis
  next
    assume "names ! i = names ! j"
    with gi gj show "idents ! i = idents ! j" by simp
  qed
qed

theorem normalize_injective_stable_witness:
  "normalize_calls [js ''a.b'', js ''a_b'', js ''a.b''] [] =
     ([js ''a_b'', js ''a_b_1'', js ''a_b''],
      [(js ''a.b'', js ''a_b''), (js ''a_b'', js ''a_b_1'')])
   \<and> js ''a_b'' \<noteq> js ''a_b_1''"
proof -
  have run: "normalize_calls [js ''a.b'', js ''a_b'', js ''a.b''] [] =
     ([js ''a_b'', js ''a_b_1'', js ''a_b''],
      [(js ''a.b'', js ''a_b''), (js ''a_b'', js ''a_b_1'')])"
    by code_simp
  have "js ''a.b'' \<noteq> js ''a_b''" by code_simp
  with normalize_injective_stable [OF run, of 0 1] show ?thesis
    using run by simp
qed

subsection \<open>The fingerprint\<close>

lemma word_not_space: "is_word c \<Longrightarrow> \<not> is_space c"
  by (auto simp: is_word_def is_alnum_def is_lower_def is_upper_def is_digit_def is_space_def Let_def)

lemma is_space_32: "is_space 32"
  by (simp add: is_space_def)

lemma not_word_32: "\<not> is_word 32"
  by (simp add: is_word_def is_alnum_def is_lower_def is_upper_def is_digit_def)

lemma collapse_ws_no_space:
  "\<forall>c\<in>set p. \<not> is_space c \<Longrightarrow> collapse_ws (p @ s) = p @ collapse_ws s"
  by (induction p) auto

lemma collapse_ws_run:
  assumes "w \<noteq> []" and "\<forall>c\<in>set w. is_space c"
  shows "collapse_ws (w @ s) = 32 # collapse_ws (dropWhile is_space s)"
proof -
  from assms obtain c w' where w: "w = c # w'" and c: "is_space c"
    and w': "\<forall>x\<in>set w'. is_space x"
    by (cases w) auto
  from w' have "dropWhile is_space (w' @ s) = dropWhile is_space s"
    by (simp add: dropWhile_append)
  with w c show ?thesis by simp
qed

lemma collapse_ws_head:
  "s = [] \<or> \<not> is_space (hd s) \<Longrightarrow> collapse_ws s = [] \<or> \<not> is_space (hd (collapse_ws s))"
  by (cases s) auto

lemma dropWhile_is_space_head: "dropWhile is_space s = [] \<or> \<not> is_space (hd (dropWhile is_space s))"
  by (metis hd_dropWhile)

lemma strip_prefix_append: "strip_prefix p (p @ s) = Some s"
  by (induction p) auto

lemma interface_no_space: "\<forall>c\<in>set (js ''interface''). \<not> is_space c"
  by (simp add: js_def is_space_def)

lemma match_interface_named:
  assumes "a \<noteq> []" and "\<forall>c\<in>set a. is_word c" and "R = [] \<or> \<not> is_space (hd R)"
  shows "match_interface (js ''interface'' @ 32 # a @ 32 # R) = Some R"
proof -
  from assms(1,2) have hd_a: "\<not> is_space (hd a)"
    by (cases a) (auto dest: word_not_space)
  with assms(1) have 1: "dropWhile is_space (32 # a @ 32 # R) = a @ 32 # R"
    by (cases a) (auto simp: is_space_32)
  from assms(2) have 2: "dropWhile is_word (a @ 32 # R) = 32 # R"
    by (simp add: dropWhile_append not_word_32)
  from assms(3) have 3: "dropWhile is_space (32 # R) = R"
    by (cases R) (auto simp: is_space_32)
  from assms(1) have "0 < length a" by simp
  then show ?thesis
    unfolding match_interface_def strip_prefix_append
    by (simp add: 1 2 3 Let_def del: dropWhile.simps)
qed

lemma replace_interface_named:
  assumes "a \<noteq> []" and "\<forall>c\<in>set a. is_word c" and "R = [] \<or> \<not> is_space (hd R)"
  shows "replace_interface (js ''interface'' @ 32 # a @ 32 # R) =
         js ''interface '' @ replace_interface R"
proof -
  obtain c cs where split: "js ''interface'' @ 32 # a @ 32 # R = c # cs"
    by (cases "js ''interface'' @ 32 # a @ 32 # R") (auto simp: js_def)
  have "replace_interface (c # cs) = js ''interface '' @ replace_interface R"
    using match_interface_named [OF assms] unfolding split by simp
  then show ?thesis unfolding split .
qed

lemma normalized_interface:
  assumes "a \<noteq> []" and "\<forall>c\<in>set a. is_word c"
    and "w1 \<noteq> []" and "\<forall>c\<in>set w1. is_space c"
    and "w2 \<noteq> []" and "\<forall>c\<in>set w2. is_space c"
  shows "replace_interface (collapse_ws (js ''interface'' @ w1 @ a @ w2 @ rest)) =
         js ''interface '' @ replace_interface (collapse_ws (dropWhile is_space rest))"
proof -
  let ?R = "collapse_ws (dropWhile is_space rest)"
  from assms(2) have a_ns: "\<forall>c\<in>set a. \<not> is_space c"
    by (auto dest: word_not_space)
  have "collapse_ws (js ''interface'' @ w1 @ a @ w2 @ rest) =
        js ''interface'' @ collapse_ws (w1 @ a @ w2 @ rest)"
    by (rule collapse_ws_no_space [OF interface_no_space])
  also have "collapse_ws (w1 @ a @ w2 @ rest) = 32 # collapse_ws (dropWhile is_space (a @ w2 @ rest))"
    by (rule collapse_ws_run [OF assms(3,4)])
  also from assms(1) a_ns have "dropWhile is_space (a @ w2 @ rest) = a @ w2 @ rest"
    by (cases a) auto
  also have "collapse_ws (a @ w2 @ rest) = a @ collapse_ws (w2 @ rest)"
    by (rule collapse_ws_no_space [OF a_ns])
  also have "collapse_ws (w2 @ rest) = 32 # ?R"
    by (rule collapse_ws_run [OF assms(5,6)])
  finally have "collapse_ws (js ''interface'' @ w1 @ a @ w2 @ rest) =
                js ''interface'' @ 32 # a @ 32 # ?R" .
  moreover have "?R = [] \<or> \<not> is_space (hd ?R)"
    by (rule collapse_ws_head [OF dropWhile_is_space_head])
  ultimately show ?thesis
    using replace_interface_named [OF assms(1,2)] by simp
qed

text \<open>
  C6, as amended. A definition text that starts with the keyword \<open>interface\<close>, white
  space, a name made of letters, digits and underscores (what \<open>\w+\<close> matches), and white
  space again has a fingerprint that does not depend on the name, nor on how much white
  space stands around it: two such texts with the same remainder have the same
  fingerprint.
\<close>

theorem hashType_ignores_word_name:
  assumes "a \<noteq> []" and "\<forall>c\<in>set a. is_word c"
    and "b \<noteq> []" and "\<forall>c\<in>set b. is_word c"
    and "w1 \<noteq> []" and "\<forall>c\<in>set w1. is_space c"
    and "w2 \<noteq> []" and "\<forall>c\<in>set w2. is_space c"
    and "v1 \<noteq> []" and "\<forall>c\<in>set v1. is_space c"
    and "v2 \<noteq> []" and "\<forall>c\<in>set v2. is_space c"
  shows "hashType (js ''interface'' @ w1 @ a @ w2 @ rest) =
         hashType (js ''interface'' @ v1 @ b @ v2 @ rest)"
  unfolding hashType_def
  by (simp only: normalized_interface [OF assms(1,2,5,6,7,8)]
      normalized_interface [OF assms(3,4,9,10,11,12)])

theorem hashType_ignores_word_name_witness:
  "hashType (js ''interface  Foo {  id: number; }'') =
   hashType (js ''interface Bar_2   {  id: number; }'')"
proof -
  have eq: "js ''interface  Foo {  id: number; }'' =
            js ''interface'' @ js ''  '' @ js ''Foo'' @ js '' '' @ js ''{  id: number; }''"
           "js ''interface Bar_2   {  id: number; }'' =
            js ''interface'' @ js '' '' @ js ''Bar_2'' @ js ''   '' @ js ''{  id: number; }''"
    by (simp_all add: js_def)
  have "hashType (js ''interface'' @ js ''  '' @ js ''Foo'' @ js '' '' @ js ''{  id: number; }'') =
        hashType (js ''interface'' @ js '' '' @ js ''Bar_2'' @ js ''   '' @ js ''{  id: number; }'')"
    by (rule hashType_ignores_word_name)
       (simp_all add: js_def is_word_def is_alnum_def is_lower_def is_upper_def is_digit_def
          is_space_def)
  then show ?thesis by (simp only: eq)
qed

text \<open>
  C6 as stated fails for a name that \<open>\w+\<close> does not match as a whole: \<open>A$\<close> and \<open>B$\<close>
  are TypeScript identifiers, the pattern does not erase them, and the two fingerprints
  differ.
\<close>

theorem hashType_name_counterexample:
  "hashType (js ''interface A$ {}'') \<noteq> hashType (js ''interface B$ {}'')"
  by code_simp

subsection \<open>Inference from one sample\<close>

lemma generateTypeFromFormData_returns:
  "\<exists>text st'. generateTypeFromFormData name formData st = (Inr text, st')"
  by (auto simp: generateTypeFromFormData_def form_data_try_def Let_def split: prod.splits sum.splits)

lemma generateTypeFromData_catch_returns:
  "\<exists>d st'. generateTypeFromData_catch name data error st = (Inr d, st')"
proof (cases "if error = SyntaxError
              then (case data of Text s \<Rightarrow> Some s | Object v \<Rightarrow> None) else None")
  case None
  then show ?thesis
    by (simp add: generateTypeFromData_catch_def fallback_any_def)
next
  case (Some formData)
  obtain defn st2 where "generateTypeFromFormData name formData st = (Inr defn, st2)"
    using generateTypeFromFormData_returns by blast
  with Some show ?thesis by (simp add: generateTypeFromData_catch_def)
qed


lemma not_json: "JSON_parse (js ''not json {'') = Inl SyntaxError"
  by code_simp

lemma not_form: "\<not> string_includes (js ''application/json'') (js ''application/x-www-form-urlencoded'')"
  by code_simp

lemma params_not_json: "URLSearchParams (js ''not json {'') = [(js ''not json {'', [])]"
  by code_simp

lemma field_type_empty: "field_type [] = js ''string''"
  by code_simp

lemma interface_single:
  "interface_text name [(p, js ''string'')] =
   js ''interface '' @ name @ js '' {\<newline>  '' @ p @ js '': string;\<newline>}''"
  by (simp add: interface_text_def js_def)

text \<open>
  C1, as amended. The text \<open>not json {\<close> with the mime type \<open>application/json\<close> is not
  JSON, so \<open>JSON.parse\<close> throws a \<open>SyntaxError\<close>; the handler then reads the text as form
  data, which gives one key, \<open>not json {\<close>, with an empty value. The result is an
  interface with that one field, of type \<open>string\<close>, under the identifier the registry
  gives the key. Nothing is thrown and no warning is logged.
\<close>

theorem not_json_read_as_form_data:
  "generateTypeFromData P name (Text (js ''not json {'')) (Some (js ''application/json'')) st =
     (case normalizePropertyName (js ''not json {'') (propertyRegistry st) of
        (propName, reg') \<Rightarrow>
          (Inr (js ''interface '' @ name @ js '' {\<newline>  '' @ propName @ js '': string;\<newline>}''),
           st\<lparr>propertyRegistry := reg'\<rparr>))"
proof -
  have attempt: "generateTypeFromData_try P name (Text (js ''not json {''))
               (Some (js ''application/json'')) st = (Inl SyntaxError, st)"
    by (simp add: generateTypeFromData_try_def not_json not_form)
  have form: "generateTypeFromFormData name (js ''not json {'') st =
     (case normalizePropertyName (js ''not json {'') (propertyRegistry st) of
        (propName, reg') \<Rightarrow>
          (Inr (interface_text name [(propName, js ''string'')]), st\<lparr>propertyRegistry := reg'\<rparr>))"
    by (simp add: generateTypeFromFormData_def form_data_try_def params_not_json field_type_empty
        split: prod.splits)
  show ?thesis
    by (simp add: generateTypeFromData_def generateTypeFromData_catch_def attempt form
        interface_single split: prod.splits)
qed

theorem not_json_read_as_form_data_witness:
  "generateTypeFromData plain_platform (js ''X'') (Text (js ''not json {''))
     (Some (js ''application/json'')) empty_state =
   (Inr (js ''interface X {\<newline>  not_json__: string;\<newline>}''),
    empty_state\<lparr>propertyRegistry := [(js ''not json {'', js ''not_json__'')]\<rparr>)"
proof -
  have "normalizePropertyName (js ''not json {'') [] =
        (js ''not_json__'', [(js ''not json {'', js ''not_json__'')])"
    by code_simp
  then show ?thesis
    using not_json_read_as_form_data [of plain_platform "js ''X''" empty_state]
    by (simp add: empty_state_def js_def)
qed

text \<open>
  C1 as stated fails: the result is not the alias \<open>type X = any;\<close>, and no warning is
  logged.
\<close>

theorem not_json_counterexample:
  "fst (generateTypeFromData plain_platform (js ''X'') (Text (js ''not json {''))
          (Some (js ''application/json'')) empty_state) \<noteq> Inr (js ''type X = any;'')
   \<and> warnings (snd (generateTypeFromData plain_platform (js ''X'') (Text (js ''not json {''))
          (Some (js ''application/json'')) empty_state)) = []"
  by code_simp

text \<open>
  C5. The claim is that a value is a \<open>boolean\<close> exactly when it is \<open>true\<close> or \<open>false\<close>,
  whatever the case. The code's pattern \<open>/^true|false$/i\<close> lacks the group around the
  alternation: the value \<open>trueish\<close> starts with \<open>true\<close> and the value \<open>notFALSE\<close> ends
  with \<open>false\<close>, and both fields are typed \<open>boolean\<close>.
\<close>

theorem form_data_boolean_slip:
  "field_type (js ''trueish'') = js ''boolean''
   \<and> fst (generateTypeFromFormData (js ''X'') (js ''flag=trueish&off=notFALSE'') empty_state) =
       Inr (js ''interface X {\<newline>  flag: boolean;\<newline>  off: boolean;\<newline>}'')"
  by code_simp

text \<open>The example of the form-data scenario, in a fresh registry.\<close>

theorem form_data_example:
  "fst (generateTypeFromFormData (js ''X'') (js ''id=42&active=true&name=bob'') empty_state) =
   Inr (js ''interface X {\<newline>  id: number;\<newline>  active: boolean;\<newline>  name: string;\<newline>}'')"
  by code_simp

text \<open>
  C10. The fingerprints of \<open>type A = any;\<close> and \<open>type B = any;\<close> differ: the name of a
  type alias is not erased. So when two bodies that are JSON but no object (\<open>42\<close> and
  \<open>17\<close>) are inferred and registered one after the other with merging on, under the
  stems \<open>A\<close> and \<open>B\<close>, both fallback aliases are registered and both are written to the
  output; and a run over two requests with such bodies ends with both aliases in the
  registry.
\<close>

theorem fallback_aliases_not_merged:
  "hashType (js ''type A = any;'') \<noteq> hashType (js ''type B = any;'')
   \<and> (case infer_and_register plain_platform default_options (js ''A'') (js ''42'') None
               empty_state of
         (r1, st1) \<Rightarrow>
           (case infer_and_register plain_platform default_options (js ''B'') (js ''17'') None st1 of
              (r2, st2) \<Rightarrow>
                r1 = Inr (js ''A'') \<and> r2 = Inr (js ''B1'')
                \<and> map fst (typeRegistry st2) = [js ''A'', js ''B1'']
                \<and> output st2 =
                    js ''\<newline>export type A = any;\<newline>\<newline>export type B1 = any;\<newline>''))
   \<and> (case generateFromHar plain_platform default_options
               [simple_entry ''POST'' ''https://api.example.com/alpha'' (json_body ''42''),
                simple_entry ''POST'' ''https://api.example.com/beta'' (json_body ''17'')] of
         Inl error \<Rightarrow> False
       | Inr st \<Rightarrow>
           map (\<lambda>(k, t). (k, entry_definition t)) (typeRegistry st) =
             [(js ''AlphaRequest'', js ''type AlphaRequest = any;''),
              (js ''BetaRequest1'', js ''type BetaRequest1 = any;'')])"
  by code_simp

subsection \<open>The type registry\<close>





subsection \<open>The loop over the request bodies\<close>

lemma infer_and_register_returns:
  "\<exists>final st'. infer_and_register P opts stem body mimeType st = (Inr final, st')"
proof -
  let ?typeName = "stem @ size_suffix st"
  obtain result st1 where attempt:
    "generateTypeFromData_try P ?typeName (Text body) mimeType st = (result, st1)"
    by (cases "generateTypeFromData_try P ?typeName (Text body) mimeType st")
  have "\<exists>d st2. generateTypeFromData P ?typeName (Text body) mimeType st = (Inr d, st2)"
  proof (cases result)
    case (Inr defn)
    with attempt show ?thesis by (simp add: generateTypeFromData_def)
  next
    case (Inl error)
    obtain d st2 where "generateTypeFromData_catch ?typeName (Text body) error st1 = (Inr d, st2)"
      using generateTypeFromData_catch_returns by blast
    with attempt Inl show ?thesis by (simp add: generateTypeFromData_def)
  qed
  then show ?thesis
    by (auto simp: infer_and_register_def Let_def split: prod.splits)
qed

lemma body_loop_returns:
  "\<exists>bt' st'. body_loop P opts stem es bt st = (Inr bt', st')"
proof (induction es arbitrary: bt st)
  case Nil
  show ?case by simp
next
  case (Cons e es)
  show ?case
  proof (cases "body_of (req_postData (har_request e))")
    case None
    with Cons.IH show ?thesis by simp
  next
    case (Some bm)
    obtain b m where bm: "bm = (b, m)" by (cases bm)
    obtain final st' where "infer_and_register P opts stem b m st = (Inr final, st')"
      using infer_and_register_returns by blast
    with Some bm Cons.IH [of final st'] show ?thesis by simp
  qed
qed

lemma body_loop_append:
  "body_loop P opts stem es bt st = (Inr bt1, st1)
     \<Longrightarrow> body_loop P opts stem (es @ es') bt st = body_loop P opts stem es' bt1 st1"
proof (induction es arbitrary: bt st)
  case Nil
  then show ?case by simp
next
  case (Cons e es)
  show ?case
  proof (cases "body_of (req_postData (har_request e))")
    case None
    with Cons show ?thesis by simp
  next
    case (Some bm)
    obtain b m where bm: "bm = (b, m)" by (cases bm)
    obtain final st' where ir: "infer_and_register P opts stem b m st = (Inr final, st')"
      using infer_and_register_returns by blast
    with Some bm Cons.prems have "body_loop P opts stem es final st' = (Inr bt1, st1)" by simp
    from Cons.IH [OF this] Some bm ir show ?thesis by simp
  qed
qed

lemma body_loop_no_bodies:
  "\<forall>x\<in>set es. body_of (req_postData (har_request x)) = None
     \<Longrightarrow> body_loop P opts stem es bt st = (Inr bt, st)"
  by (induction es) auto

text \<open>
  C8. In a group whose entries are \<open>es\<close>, then an entry \<open>e\<close> with a request body, then
  entries without one, the loop over the entries before \<open>e\<close> ends without an error, and
  the body type of the group is the name that inference and registration give for the
  body of \<open>e\<close> in the state those entries left. The names found for earlier bodies
  (\<open>bt1\<close>) play no part in it.
\<close>

theorem body_type_from_last_body:
  assumes "body_of (req_postData (har_request e)) = Some (b, m)"
    and "\<forall>x\<in>set rest. body_of (req_postData (har_request x)) = None"
  shows "\<exists>bt1 st1. body_loop P opts stem es bt st = (Inr bt1, st1)
           \<and> body_loop P opts stem (es @ e # rest) bt st = infer_and_register P opts stem b m st1"
proof -
  obtain bt1 st1 where es: "body_loop P opts stem es bt st = (Inr bt1, st1)"
    using body_loop_returns by blast
  obtain final st2 where ir: "infer_and_register P opts stem b m st1 = (Inr final, st2)"
    using infer_and_register_returns by blast
  have "body_loop P opts stem (es @ e # rest) bt st = body_loop P opts stem (e # rest) bt1 st1"
    by (rule body_loop_append [OF es])
  also have "\<dots> = body_loop P opts stem rest final st2"
    using assms(1) ir by simp
  also have "\<dots> = (Inr final, st2)"
    by (rule body_loop_no_bodies [OF assms(2)])
  finally show ?thesis using es ir by simp
qed

theorem body_type_from_last_body_witness:
  "\<exists>bt1 st1.
     body_loop plain_platform default_options (js ''ItemsRequest'')
       [simple_entry ''POST'' ''https://api.example.com/items'' (form_body ''id=42'')]
       (js ''undefined'') empty_state = (Inr bt1, st1)
     \<and> body_loop plain_platform default_options (js ''ItemsRequest'')
         ([simple_entry ''POST'' ''https://api.example.com/items'' (form_body ''id=42'')]
          @ simple_entry ''POST'' ''https://api.example.com/items'' (form_body ''name=bob'')
          # [simple_entry ''POST'' ''https://api.example.com/items'' None])
         (js ''undefined'') empty_state =
       infer_and_register plain_platform default_options (js ''ItemsRequest'')
         (js ''name=bob'') (Some (js ''application/x-www-form-urlencoded'')) st1"
proof -
  have 1: "body_of (req_postData (har_request
             (simple_entry ''POST'' ''https://api.example.com/items'' (form_body ''name=bob'')))) =
           Some (js ''name=bob'', Some (js ''application/x-www-form-urlencoded''))"
    by code_simp
  have 2: "\<forall>x\<in>set [simple_entry ''POST'' ''https://api.example.com/items'' None].
             body_of (req_postData (har_request x)) = None"
    by (simp add: simple_entry_def body_of_def)
  show ?thesis by (rule body_type_from_last_body [OF 1 2])
qed

lemma last_body_example:
  "fst (body_loop plain_platform default_options (js ''ItemsRequest'')
         [simple_entry ''POST'' ''https://api.example.com/items'' (form_body ''id=42''),
          simple_entry ''POST'' ''https://api.example.com/items'' (form_body ''name=bob''),
          simple_entry ''POST'' ''https://api.example.com/items'' None]
         (js ''undefined'') empty_state) = Inr (js ''ItemsRequest1'')"
  by code_simp

subsection \<open>The output of a run\<close>

lemma generateTypeFromFormData_output:
  "generateTypeFromFormData name formData st = (r, st') \<Longrightarrow> output st' = output st"
  by (auto simp: generateTypeFromFormData_def form_data_try_def warn_def Let_def
      split: prod.splits sum.splits)

lemma generateTypeFromJSON_output:
  "generateTypeFromJSON P name data st = (r, st') \<Longrightarrow> output st' = output st"
  by (auto simp: generateTypeFromJSON_def split: prod.splits sum.splits)

lemma generateTypeFromData_try_output:
  "generateTypeFromData_try P name data mimeType st = (r, st') \<Longrightarrow> output st' = output st"
  by (auto simp: generateTypeFromData_try_def
      dest: generateTypeFromFormData_output generateTypeFromJSON_output
      split: if_splits payload.splits sum.splits)

lemma generateTypeFromData_catch_output:
  assumes "generateTypeFromData_catch name data error st = (r, st')"
  shows "output st' = output st"
proof (cases "if error = SyntaxError
              then (case data of Text s \<Rightarrow> Some s | Object v \<Rightarrow> None) else None")
  case None
  with assms show ?thesis
    by (auto simp: generateTypeFromData_catch_def fallback_any_def warn_def)
next
  case (Some formData)
  obtain r2 st2 where f: "generateTypeFromFormData name formData st = (r2, st2)"
    by (cases "generateTypeFromFormData name formData st")
  from generateTypeFromFormData_output [OF f] have "output st2 = output st" .
  with Some f assms show ?thesis
    by (auto simp: generateTypeFromData_catch_def fallback_any_def warn_def split: sum.splits)
qed

lemma generateTypeFromData_output:
  assumes "generateTypeFromData P name data mimeType st = (r, st')"
  shows "output st' = output st"
proof (cases "generateTypeFromData_try P name data mimeType st")
  case (Pair res st1)
  then have 1: "output st1 = output st" by (rule generateTypeFromData_try_output)
  show ?thesis
  proof (cases res)
    case (Inr d)
    with Pair assms 1 show ?thesis by (simp add: generateTypeFromData_def)
  next
    case (Inl error)
    with Pair assms have "generateTypeFromData_catch name data error st1 = (r, st')"
      by (simp add: generateTypeFromData_def)
    from generateTypeFromData_catch_output [OF this] 1 show ?thesis by simp
  qed
qed

lemma register_output:
  "register merge typeName d st = (r, st') \<Longrightarrow> prefix (output st) (output st')"
  by (auto simp: register_def Let_def split: option.splits if_splits)

lemma infer_and_register_output:
  assumes "infer_and_register P opts stem body mimeType st = (r, st')"
  shows "prefix (output st) (output st')"
proof -
  obtain g st1 where g: "generateTypeFromData P (stem @ size_suffix st) (Text body) mimeType st = (g, st1)"
    by (cases "generateTypeFromData P (stem @ size_suffix st) (Text body) mimeType st")
  from generateTypeFromData_output [OF g] have 1: "output st1 = output st" .
  show ?thesis
  proof (cases g)
    case (Inl error)
    with g assms 1 show ?thesis by (simp add: infer_and_register_def Let_def)
  next
    case (Inr d)
    obtain rr st2 where rg: "register (mergeTypes opts) (stem @ size_suffix st) d st1 = (rr, st2)"
      by (cases "register (mergeTypes opts) (stem @ size_suffix st) d st1")
    from register_output [OF rg] 1 have "prefix (output st) (output st2)" by simp
    with Inr g rg assms show ?thesis
      by (auto simp: infer_and_register_def Let_def split: prod.splits)
  qed
qed

lemma body_loop_output:
  "body_loop P opts stem es bt st = (r, st') \<Longrightarrow> prefix (output st) (output st')"
proof (induction es arbitrary: bt st)
  case Nil
  then show ?case by simp
next
  case (Cons e es)
  show ?case
  proof (cases "body_of (req_postData (har_request e))")
    case None
    with Cons show ?thesis by simp
  next
    case (Some bm)
    obtain b m where bm: "bm = (b, m)" by (cases bm)
    obtain r1 st1 where ir: "infer_and_register P opts stem b m st = (r1, st1)"
      by (cases "infer_and_register P opts stem b m st")
    from infer_and_register_output [OF ir] have 1: "prefix (output st) (output st1)" .
    show ?thesis
    proof (cases r1)
      case (Inl error)
      with Some bm ir Cons.prems 1 show ?thesis by simp
    next
      case (Inr final)
      with Some bm ir Cons.prems have "body_loop P opts stem es final st1 = (r, st')" by simp
      from Cons.IH [OF this] 1 show ?thesis by (rule prefix_order.trans [rotated])
    qed
  qed
qed

lemma response_loop_output:
  "response_loop P opts stem u es rt st = (r, st') \<Longrightarrow> prefix (output st) (output st')"
proof (induction es arbitrary: rt st)
  case Nil
  then show ?case by simp
next
  case (Cons e es)
  show ?case
  proof (cases "body_of (resp_content (har_response e))")
    case None
    with Cons show ?thesis by simp
  next
    case (Some bm)
    obtain b m where bm: "bm = (b, m)" by (cases bm)
    obtain r1 st1 where ir: "infer_and_register P opts stem b m st = (r1, st1)"
      by (cases "infer_and_register P opts stem b m st")
    from infer_and_register_output [OF ir] have 1: "prefix (output st) (output st1)" .
    show ?thesis
    proof (cases r1)
      case (Inl error)
      with Some bm ir Cons.prems
      have "response_loop P opts stem u es rt (warn (ResponseParseFailed u) st1) = (r, st')"
        by simp
      from Cons.IH [OF this] have "prefix (output st1) (output st')" by (simp add: warn_def)
      with 1 show ?thesis by (rule prefix_order.trans)
    next
      case (Inr final)
      with Some bm ir Cons.prems
      have "response_loop P opts stem u es (js ''ResponseBase<'' @ final @ js ''>'') st1 = (r, st')"
        by simp
      from Cons.IH [OF this] 1 show ?thesis by (rule prefix_order.trans [rotated])
    qed
  qed
qed

lemma params_decl_head_eq:
  "js ''\<newline>export '' @ param_interface (typePrefix opts @ normalizeTypeName resource @ js ''Params'') ls
     @ js ''\<newline>'' =
   params_decl_head opts resource @ join (js ''\<newline>'') ls @ js ''\<newline>}\<newline>''"
  by (simp add: param_interface_def params_decl_head_def js_def)

lemma process_group_stages:
  assumes "process_group P opts (e # r) st = Inr st'"
    and "new_URL P (req_url (har_request e)) = Inr u"
    and "collect_params P (e # r) [] = Inr q"
  shows "\<exists>st1. prefix (output st1) (output st')
           \<and> (if q = [] then st1 = st
               else (\<exists>ls reg'. st1 = st\<lparr>propertyRegistry := reg',
                       output := output st @ js ''\<newline>export ''
                         @ param_interface (typePrefix opts @ normalizeTypeName (getResourceName u)
                              @ js ''Params'') ls @ js ''\<newline>''\<rparr>))"
proof -
  let ?N = "typePrefix opts @ normalizeTypeName (getResourceName u) @ js ''Params''"
  define pst where "pst = (if q = []
      then (js ''{[key: string]: string | number | boolean | undefined}'', st)
      else (case param_lines (map fst q) (propertyRegistry st) of
              (ls, reg') \<Rightarrow>
                (?N, st\<lparr>propertyRegistry := reg',
                        output := output st @ js ''\<newline>export '' @ param_interface ?N ls
                          @ js ''\<newline>''\<rparr>)))"
  obtain paramsType st1 where p: "pst = (paramsType, st1)" by (cases pst)
  let ?req = "typePrefix opts @ normalizeTypeName (getResourceName u) @ js ''Request''"
  let ?resp = "typePrefix opts @ normalizeTypeName (getResourceName u) @ js ''Response''"
  obtain br st2 where b: "body_loop P opts ?req (e # r) (js ''undefined'') st1 = (br, st2)"
    by (cases "body_loop P opts ?req (e # r) (js ''undefined'') st1")
  have unfolded: "process_group P opts (e # r) st =
      (case br of Inl error \<Rightarrow> Inl error
       | Inr bodyType \<Rightarrow>
           (case response_loop P opts ?resp (req_url (har_request e)) (e # r)
                   (js ''ResponseBase<unknown>'') st2 of
              (responseType, st3) \<Rightarrow>
                Inr (st3\<lparr>output := output st3
                       @ function_text P (har_request e) u paramsType bodyType responseType\<rparr>)))"
    using assms(2,3) p b unfolding process_group_def pst_def
    by (simp add: Let_def)
  from assms(1) unfolded obtain bodyType where br: "br = Inr bodyType"
    by (cases br) auto
  obtain responseType st3 where rl: "response_loop P opts ?resp (req_url (har_request e)) (e # r)
                   (js ''ResponseBase<unknown>'') st2 = (responseType, st3)"
    by (cases "response_loop P opts ?resp (req_url (har_request e)) (e # r)
                   (js ''ResponseBase<unknown>'') st2")
  from assms(1) unfolded br rl have st': "output st' = output st3
        @ function_text P (har_request e) u paramsType bodyType responseType"
    by auto
  have "prefix (output st1) (output st2)" using b by (rule body_loop_output)
  also have "prefix (output st2) (output st3)" using rl by (rule response_loop_output)
  also have "prefix (output st3) (output st')" unfolding st' by simp
  finally have pre: "prefix (output st1) (output st')" .
  show ?thesis
  proof (cases "q = []")
    case True
    with p have "st1 = st" by (simp add: pst_def)
    with pre True show ?thesis by auto
  next
    case False
    with p have "\<exists>ls reg'. st1 = st\<lparr>propertyRegistry := reg',
                        output := output st @ js ''\<newline>export '' @ param_interface ?N ls
                          @ js ''\<newline>''\<rparr>"
      by (auto simp: pst_def split: prod.splits)
    with pre False show ?thesis by (intro exI [of _ st1]) simp
  qed
qed

lemma process_group_output:
  assumes "process_group P opts g st = Inr st'"
  shows "prefix (output st) (output st')"
proof (cases g)
  case Nil
  with assms show ?thesis by (simp add: process_group_def)
next
  case (Cons e r)
  from assms Cons obtain u where u: "new_URL P (req_url (har_request e)) = Inr u"
    by (cases "new_URL P (req_url (har_request e))") (auto simp: process_group_def Let_def)
  from assms Cons u obtain q where q: "collect_params P (e # r) [] = Inr q"
    by (cases "collect_params P (e # r) []") (auto simp: process_group_def Let_def)
  from process_group_stages [OF assms [unfolded Cons] u q]
  obtain st1 where 1: "prefix (output st1) (output st')"
    and 2: "if q = [] then st1 = st
               else (\<exists>ls reg'. st1 = st\<lparr>propertyRegistry := reg',
                       output := output st @ js ''\<newline>export ''
                         @ param_interface (typePrefix opts @ normalizeTypeName (getResourceName u)
                              @ js ''Params'') ls @ js ''\<newline>''\<rparr>)"
    by blast
  from 2 have "prefix (output st) (output st1)"
    by (auto split: if_splits)
  with 1 show ?thesis by (rule prefix_order.trans [rotated])
qed

lemma process_group_declares:
  assumes "process_group P opts (e # r) st = Inr st'"
    and "new_URL P (req_url (har_request e)) = Inr u"
    and "collect_params P (e # r) [] = Inr q" and "q \<noteq> []"
  shows "prefix (output st @ params_decl_head opts (getResourceName u)) (output st')"
proof -
  from process_group_stages [OF assms(1,2,3)] assms(4)
  obtain st1 ls reg' where 1: "prefix (output st1) (output st')"
    and 2: "st1 = st\<lparr>propertyRegistry := reg',
                       output := output st @ js ''\<newline>export ''
                         @ param_interface (typePrefix opts @ normalizeTypeName (getResourceName u)
                              @ js ''Params'') ls @ js ''\<newline>''\<rparr>"
    by auto
  from 2 have "output st1 = output st @ params_decl_head opts (getResourceName u)
                 @ join (js ''\<newline>'') ls @ js ''\<newline>}\<newline>''"
    by (simp add: params_decl_head_eq)
  then have "prefix (output st @ params_decl_head opts (getResourceName u)) (output st1)"
    by (metis append.assoc prefixI)
  then show ?thesis using 1 by (rule prefix_order.trans)
qed

lemma process_groups_output:
  "process_groups P opts gs st = Inr st' \<Longrightarrow> prefix (output st) (output st')"
proof (induction gs arbitrary: st)
  case Nil
  then show ?case by simp
next
  case (Cons g gs)
  then obtain st1 where 1: "process_group P opts g st = Inr st1"
    and 2: "process_groups P opts gs st1 = Inr st'"
    by (auto split: sum.splits)
  from process_group_output [OF 1] Cons.IH [OF 2] show ?case
    by (rule prefix_order.trans)
qed

lemma process_groups_append:
  "process_groups P opts (xs @ ys) st = Inr st'
     \<Longrightarrow> \<exists>st1. process_groups P opts xs st = Inr st1 \<and> process_groups P opts ys st1 = Inr st'"
  by (induction xs arbitrary: st) (auto split: sum.splits)

lemma process_groups_declares:
  assumes "process_groups P opts (xs @ (e # r) # ys) st = Inr st'"
    and "new_URL P (req_url (har_request e)) = Inr u"
    and "collect_params P (e # r) [] = Inr q" and "q \<noteq> []"
  shows "\<exists>st1 st2. process_groups P opts xs st = Inr st1
           \<and> process_groups P opts ys st2 = Inr st'
           \<and> prefix (output st1 @ params_decl_head opts (getResourceName u)) (output st2)"
proof -
  from process_groups_append [OF assms(1)] obtain st1 where
    1: "process_groups P opts xs st = Inr st1"
    and "process_groups P opts ((e # r) # ys) st1 = Inr st'"
    by blast
  then obtain st2 where 2: "process_group P opts (e # r) st1 = Inr st2"
    and 3: "process_groups P opts ys st2 = Inr st'"
    by (auto split: sum.splits)
  from process_group_declares [OF 2 assms(2,3,4)] 1 3 show ?thesis by blast
qed

text \<open>A run ends without an error when, and only when, \<open>new URL\<close> accepts the URL of
  every entry the filter keeps.\<close>

definition parses :: "platform \<Rightarrow> HarEntry \<Rightarrow> bool" where
  "parses P e = (\<exists>u. new_URL P (req_url (har_request e)) = Inr u)"

lemma Map_get_mem: "Map_get m k = Some v \<Longrightarrow> (k, v) \<in> set m"
  by (induction m) (auto split: if_splits)

lemma Map_set_mem: "(k', v') \<in> set (Map_set m k v) \<Longrightarrow> (k', v') \<in> set m \<or> (k', v') = (k, v)"
  by (induction m) (auto split: if_splits)

lemma group_entries_parse:
  assumes "group_entries P es groups = Inr groups'"
    and "\<forall>(k, g)\<in>set groups. g \<noteq> [] \<and> (\<forall>e\<in>set g. parses P e)"
  shows "\<forall>(k, g)\<in>set groups'. g \<noteq> [] \<and> (\<forall>e\<in>set g. parses P e)"
  using assms
proof (induction es arbitrary: groups)
  case Nil
  then show ?case by simp
next
  case (Cons entry es)
  from Cons.prems(1) obtain url where url: "new_URL P (req_url (har_request entry)) = Inr url"
    by (cases "new_URL P (req_url (har_request entry))") auto
  define key where "key = req_method (har_request entry) @ js ''_'' @ getResourceName url"
  define members where "members = (case Map_get groups key of None \<Rightarrow> [] | Some es \<Rightarrow> es)"
  from Cons.prems(1) url
  have rec: "group_entries P es (Map_set groups key (members @ [entry])) = Inr groups'"
    by (simp add: Let_def key_def members_def)
  have old: "\<forall>e\<in>set members. parses P e"
  proof (cases "Map_get groups key")
    case None
    then show ?thesis by (simp add: members_def)
  next
    case (Some g)
    from Map_get_mem [OF Some] Cons.prems(2) have "\<forall>e\<in>set g. parses P e" by auto
    with Some show ?thesis by (simp add: members_def)
  qed
  have "parses P entry" using url by (auto simp: parses_def)
  with old have new: "\<forall>e\<in>set (members @ [entry]). parses P e" by simp
  have "\<forall>(k, g)\<in>set (Map_set groups key (members @ [entry])).
          g \<noteq> [] \<and> (\<forall>e\<in>set g. parses P e)"
  proof clarify
    fix k g
    assume "(k, g) \<in> set (Map_set groups key (members @ [entry]))"
    then consider "(k, g) \<in> set groups" | "(k, g) = (key, members @ [entry])"
      using Map_set_mem by fast
    then show "g \<noteq> [] \<and> (\<forall>e\<in>set g. parses P e)"
    proof cases
      case 1
      with Cons.prems(2) show ?thesis by auto
    next
      case 2
      with new show ?thesis by simp
    qed
  qed
  from Cons.IH [OF rec this] show ?case .
qed

lemma collect_params_returns:
  "\<forall>e\<in>set g. parses P e \<Longrightarrow> \<exists>q. collect_params P g acc = Inr q"
  by (induction g arbitrary: acc) (auto simp: parses_def)

lemma process_group_returns:
  assumes "\<forall>e\<in>set g. parses P e"
  shows "\<exists>st'. process_group P opts g st = Inr st'"
proof (cases g)
  case Nil
  then show ?thesis by (simp add: process_group_def)
next
  case (Cons e r)
  from assms Cons obtain u where u: "new_URL P (req_url (har_request e)) = Inr u"
    by (auto simp: parses_def)
  from assms Cons obtain q where q: "collect_params P (e # r) [] = Inr q"
    using collect_params_returns [of g P "[]"] by auto
  let ?N = "typePrefix opts @ normalizeTypeName (getResourceName u) @ js ''Params''"
  define pst where "pst = (if q = []
      then (js ''{[key: string]: string | number | boolean | undefined}'', st)
      else (case param_lines (map fst q) (propertyRegistry st) of
              (ls, reg') \<Rightarrow>
                (?N, st\<lparr>propertyRegistry := reg',
                        output := output st @ js ''\<newline>export '' @ param_interface ?N ls
                          @ js ''\<newline>''\<rparr>)))"
  obtain paramsType st1 where p: "pst = (paramsType, st1)" by (cases pst)
  let ?req = "typePrefix opts @ normalizeTypeName (getResourceName u) @ js ''Request''"
  obtain bodyType st2 where b: "body_loop P opts ?req (e # r) (js ''undefined'') st1 = (Inr bodyType, st2)"
    using body_loop_returns by blast
  show ?thesis
    using u q p b unfolding Cons process_group_def pst_def
    by (simp add: Let_def split: prod.splits)
qed

lemma process_groups_returns:
  "\<forall>g\<in>set gs. \<forall>e\<in>set g. parses P e \<Longrightarrow> \<exists>st'. process_groups P opts gs st = Inr st'"
proof (induction gs arbitrary: st)
  case Nil
  show ?case by simp
next
  case (Cons g gs)
  then obtain st1 where "process_group P opts g st = Inr st1"
    using process_group_returns [of g P opts st] by auto
  with Cons show ?case by simp
qed

lemma generateFromHar_returns:
  assumes "group_entries P (http_entries har_entries) [] = Inr endpointGroups"
  shows "\<exists>st. generateFromHar P opts har_entries = Inr st"
proof -
  from group_entries_parse [OF assms]
  have "\<forall>(k, g)\<in>set endpointGroups. g \<noteq> [] \<and> (\<forall>e\<in>set g. parses P e)" by simp
  then have "\<forall>g\<in>set (Map_values endpointGroups). \<forall>e\<in>set g. parses P e"
    by (auto simp: Map_values_def)
  from process_groups_returns [OF this] assms show ?thesis
    by (simp add: generateFromHar_def Let_def)
qed

lemma group_entries_throws:
  assumes "e \<in> set es" and "new_URL P (req_url (har_request e)) = Inl error"
  shows "\<exists>error'. group_entries P es groups = Inl error'"
  using assms
proof (induction es arbitrary: groups)
  case Nil
  then show ?case by simp
next
  case (Cons entry es)
  show ?case
  proof (cases "new_URL P (req_url (har_request entry))")
    case (Inl a)
    then show ?thesis by simp
  next
    case (Inr url)
    with Cons.prems have "e \<in> set es" by auto
    from Cons.IH [OF this Cons.prems(2)] Inr show ?thesis by (simp add: Let_def)
  qed
qed

lemma generateFromHar_throws:
  assumes "e \<in> set har_entries" and "startsWith (req_url (har_request e)) (js ''http'')"
    and "new_URL P (req_url (har_request e)) = Inl error"
  shows "\<exists>error'. generateFromHar P opts har_entries = Inl error'"
proof -
  from assms(1,2) have "e \<in> set (http_entries har_entries)"
    by (simp add: http_entries_def)
  from group_entries_throws [OF this assms(3)] obtain error' where
    "group_entries P (http_entries har_entries) [] = Inl error'" by blast
  then show ?thesis by (simp add: generateFromHar_def Let_def)
qed

text \<open>
  C9. The declaration of a group's parameter interface starts with
  \<open>params_decl_head\<close>, which is made of the type prefix and the title-cased resource
  name only: neither the method nor the key of the group is part of it. So when the
  grouping gives two groups with the same resource name and at least one query parameter
  each, the run ends without an error and its output holds the same declaration head
  twice.
\<close>

theorem params_interface_declared_twice:
  assumes "group_entries P (http_entries har_entries) [] = Inr endpointGroups"
    and "Map_values endpointGroups = xs @ (e1 # r1) # ys @ (e2 # r2) # zs"
    and "new_URL P (req_url (har_request e1)) = Inr u1"
    and "new_URL P (req_url (har_request e2)) = Inr u2"
    and "getResourceName u1 = getResourceName u2"
    and "collect_params P (e1 # r1) [] = Inr q1" and "q1 \<noteq> []"
    and "collect_params P (e2 # r2) [] = Inr q2" and "q2 \<noteq> []"
  shows "\<exists>st a b c. generateFromHar P opts har_entries = Inr st
           \<and> output st =
               a @ params_decl_head opts (getResourceName u1) @ b
                 @ params_decl_head opts (getResourceName u1) @ c"
proof -
  let ?D = "params_decl_head opts (getResourceName u1)"
  obtain st where st: "generateFromHar P opts har_entries = Inr st"
    using generateFromHar_returns [OF assms(1)] by blast
  with assms(1,2)
  have run: "process_groups P opts (xs @ (e1 # r1) # ys @ (e2 # r2) # zs) (initial_state P) = Inr st"
    by (simp add: generateFromHar_def Let_def)
  from process_groups_declares [OF run assms(3,6,7)] obtain sa sb where
    a: "process_groups P opts xs (initial_state P) = Inr sa"
    and b: "process_groups P opts (ys @ (e2 # r2) # zs) sb = Inr st"
    and ab: "prefix (output sa @ ?D) (output sb)"
    by blast
  from process_groups_declares [OF b assms(4,8,9)] assms(5) obtain sc sd where
    c: "process_groups P opts ys sb = Inr sc"
    and d: "process_groups P opts zs sd = Inr st"
    and cd: "prefix (output sc @ ?D) (output sd)"
    by auto
  from ab obtain s1 where s1: "output sb = output sa @ ?D @ s1"
    by (auto simp: prefix_def)
  from process_groups_output [OF c] obtain s2 where s2: "output sc = output sb @ s2"
    by (auto simp: prefix_def)
  from cd obtain s3 where s3: "output sd = output sc @ ?D @ s3"
    by (auto simp: prefix_def)
  from process_groups_output [OF d] obtain s4 where s4: "output st = output sd @ s4"
    by (auto simp: prefix_def)
  have "output st = output sa @ ?D @ (s1 @ s2) @ ?D @ (s3 @ s4)"
    by (simp add: s1 s2 s3 s4)
  with st show ?thesis by blast
qed

lemma isl_projr: "\<not> isl x \<Longrightarrow> x = Inr (projr x)"
  by (cases x) auto

theorem params_interface_declared_twice_witness:
  "\<exists>st a b c.
     generateFromHar plain_platform default_options
       [simple_entry ''GET'' ''https://api.example.com/users?page=1'' None,
        simple_entry ''POST'' ''https://api.example.com/users?dry=1'' None] = Inr st
     \<and> output st = a @ js ''\<newline>export interface UsersParams {\<newline>'' @ b
           @ js ''\<newline>export interface UsersParams {\<newline>'' @ c"
proof -
  let ?e1 = "simple_entry ''GET'' ''https://api.example.com/users?page=1'' None"
  let ?e2 = "simple_entry ''POST'' ''https://api.example.com/users?dry=1'' None"
  let ?P = plain_platform
  have groups: "group_entries ?P (http_entries [?e1, ?e2]) [] =
                  Inr [(js ''GET_users'', [?e1]), (js ''POST_users'', [?e2])]"
    by code_simp
  have vals: "Map_values [(js ''GET_users'', [?e1]), (js ''POST_users'', [?e2])] =
                [] @ (?e1 # []) # [] @ (?e2 # []) # []"
    by (simp add: Map_values_def)
  have "\<not> isl (new_URL ?P (req_url (har_request ?e1)))" by code_simp
  then have u1: "new_URL ?P (req_url (har_request ?e1)) =
                   Inr (projr (new_URL ?P (req_url (har_request ?e1))))"
    by (rule isl_projr)
  have "\<not> isl (new_URL ?P (req_url (har_request ?e2)))" by code_simp
  then have u2: "new_URL ?P (req_url (har_request ?e2)) =
                   Inr (projr (new_URL ?P (req_url (har_request ?e2))))"
    by (rule isl_projr)
  have same: "getResourceName (projr (new_URL ?P (req_url (har_request ?e1)))) =
              getResourceName (projr (new_URL ?P (req_url (har_request ?e2))))"
    by code_simp
  have "\<not> isl (collect_params ?P [?e1] [])" by code_simp
  then have q1: "collect_params ?P [?e1] [] = Inr (projr (collect_params ?P [?e1] []))"
    by (rule isl_projr)
  have n1: "projr (collect_params ?P [?e1] []) \<noteq> []" by code_simp
  have "\<not> isl (collect_params ?P [?e2] [])" by code_simp
  then have q2: "collect_params ?P [?e2] [] = Inr (projr (collect_params ?P [?e2] []))"
    by (rule isl_projr)
  have n2: "projr (collect_params ?P [?e2] []) \<noteq> []" by code_simp
  have head: "params_decl_head default_options
                (getResourceName (projr (new_URL ?P (req_url (har_request ?e1))))) =
              js ''\<newline>export interface UsersParams {\<newline>''"
    by code_simp
  from params_interface_declared_twice [OF groups vals u1 u2 same q1 n1 q2 n2, of default_options]
  show ?thesis unfolding head .
qed

text \<open>
  C4. The claim is that an entry whose URL is not absolute is left out without any
  effect on the run. The filter keeps every URL that starts with \<open>http\<close>; the relative
  URL \<open>http-proxy/users\<close> passes it, \<open>new URL\<close> throws on it in the grouping loop, and
  the run ends with that error (\<open>generateFromHar_throws\<close>), the entry with the absolute
  URL included.
\<close>

theorem relative_http_url_aborts:
  "generateFromHar plain_platform default_options
     [simple_entry ''GET'' ''https://api.example.com/users'' None,
      simple_entry ''GET'' ''http-proxy/users'' None] = Inl TypeError"
  by code_simp

subsection \<open>Further properties of the generation\<close>

text \<open>With merging off, every definition is stored under its candidate name and written
  to the output, whatever the registry holds.\<close>

theorem register_without_merging:
  "register False typeName d st =
     ((typeName, True),
      st\<lparr>typeRegistry :=
            Map_set (typeRegistry st) typeName
              \<lparr>entry_name = typeName, entry_definition = d, entry_hash = hashType d\<rparr>,
          output := output st @ js ''\<newline>export '' @ d @ js ''\<newline>''\<rparr>)"
  by (simp add: register_def Let_def)

text \<open>An entry whose URL does not start with \<open>http\<close> has no effect on the run: the
  generation gives what it gives without the entry.\<close>

theorem non_http_entry_excluded:
  assumes "\<not> startsWith (req_url (har_request e)) (js ''http'')"
  shows "generateFromHar P opts (xs @ e # ys) = generateFromHar P opts (xs @ ys)"
  using assms by (simp add: generateFromHar_def http_entries_def)

theorem non_http_entry_excluded_witness:
  "generateFromHar plain_platform default_options
     ([simple_entry ''GET'' ''https://api.example.com/users'' None]
      @ simple_entry ''GET'' ''/relative/path'' None # []) =
   generateFromHar plain_platform default_options
     ([simple_entry ''GET'' ''https://api.example.com/users'' None] @ [])"
proof -
  have "\<not> startsWith (req_url (har_request (simple_entry ''GET'' ''/relative/path'' None)))
          (js ''http'')"
    by code_simp
  then show ?thesis by (rule non_http_entry_excluded)
qed

text \<open>The key of a group is the method and the last segment of the path: the requests
  \<open>GET /users/1\<close> and \<open>GET /users/2\<close> are two groups, \<open>GET_1\<close> and \<open>GET_2\<close>.\<close>

theorem groups_by_last_path_segment:
  "group_entries plain_platform
     (http_entries [simple_entry ''GET'' ''https://api.example.com/users/1'' None,
                    simple_entry ''GET'' ''https://api.example.com/users/2'' None]) [] =
   Inr [(js ''GET_1'', [simple_entry ''GET'' ''https://api.example.com/users/1'' None]),
        (js ''GET_2'', [simple_entry ''GET'' ''https://api.example.com/users/2'' None])]"
  by code_simp

end
